theory Spec2Isabelle
  imports
    Main
    "HOL-Library.Char_ord"
    "HOL-Library.List_Lexorder"
    "HOL-Library.Sublist"
    "HOL-Library.Multiset"
begin

section \<open>Python text primitives\<close>

text \<open>
  Text whose code points are all below 256 is a \<^typ>\<open>string\<close>, one character for each
  code point. The functions of this section are the methods of \<^verbatim>\<open>str\<close> on such text;
  they serve file names, the list of entities, the cells of the tables and the filter
  on the text of a table. Files that are read through a codec are modelled on their
  bytes, in the section on text files.
\<close>

abbreviation newline :: char where
  "newline \<equiv> CHR 0x0A"


text \<open>\<^verbatim>\<open>str.isspace\<close> on one code point below 256: U+0009..U+000D, U+001C..U+0020,
  U+0085 and U+00A0.\<close>

definition isspace :: "char \<Rightarrow> bool" where
  "isspace c =
     (let n = (of_char c :: nat)
      in (9 \<le> n \<and> n \<le> 13) \<or> (28 \<le> n \<and> n \<le> 32) \<or> n = 133 \<or> n = 160)"

text \<open>\<^verbatim>\<open>s.strip()\<close>: leading and trailing whitespace removed.\<close>

definition py_strip :: "string \<Rightarrow> string" where
  "py_strip s = rev (dropWhile isspace (rev (dropWhile isspace s)))"


text \<open>\<^verbatim>\<open>str.lower\<close> on code points below 256: A..Z and U+00C0..U+00DE
  (the multiplication sign U+00D7 apart) move up by 32.\<close>

definition lower_char :: "char \<Rightarrow> char" where
  "lower_char c =
     (let n = (of_char c :: nat)
      in if (65 \<le> n \<and> n \<le> 90) \<or> (192 \<le> n \<and> n \<le> 222 \<and> n \<noteq> 215)
         then char_of (n + 32) else c)"

definition py_lower :: "string \<Rightarrow> string" where
  "py_lower s = map lower_char s"

text \<open>\<^verbatim>\<open>s.split(d)\<close> for a one-character separator: never empty,
  \<^verbatim>\<open>"".split(",") == [""]\<close>.\<close>

fun py_split :: "char \<Rightarrow> string \<Rightarrow> string list" where
  "py_split d [] = [[]]"
| "py_split d (c # cs) =
     (if c = d then [] # py_split d cs
      else (case py_split d cs of
              [] \<Rightarrow> [[c]]
            | f # fs \<Rightarrow> (c # f) # fs))"

text \<open>\<^verbatim>\<open>sep.join(parts)\<close>.\<close>

fun py_join :: "string \<Rightarrow> string list \<Rightarrow> string" where
  "py_join sep [] = []"
| "py_join sep [x] = x"
| "py_join sep (x # y # ys) = x @ sep @ py_join sep (y # ys)"

text \<open>Iterating over a text file: the lines, each with its line feed; the last line
  has none when the text does not end in one. \<^verbatim>\<open>readline()\<close> is the first line,
  or the empty string at the end of the file.\<close>

fun py_lines :: "string \<Rightarrow> string list" where
  "py_lines [] = []"
| "py_lines (c # cs) =
     (if c = newline then [c] # py_lines cs
      else (case py_lines cs of
              [] \<Rightarrow> [[c]]
            | l # ls \<Rightarrow> (c # l) # ls))"



section \<open>Exceptions\<close>

text \<open>The exceptions that the modelled code raises or lets through, each with its
  message.\<close>

datatype error =
    ValueError string
  | KeyError string
  | OSError string
  | SystemExit string
  | WebDriverException string
  | UnicodeDecodeError string
  | FileNotFoundError string
  | FileExistsError string
  | NotADirectoryError string
  | IsADirectoryError string

section \<open>Text files: bytes, code points and lines\<close>

text \<open>
  A file is the list of its bytes, a Python \<^verbatim>\<open>str\<close> the list of its code points.
  \<^verbatim>\<open>open(path, "r", encoding=...)\<close> decodes the bytes, raising
  \<^verbatim>\<open>UnicodeDecodeError\<close> on bytes that are not well-formed UTF-8 (an overlong form,
  a surrogate and a value above U+10FFFF are not), and hands every line end
  (\<^verbatim>\<open>\r\n\<close> or \<^verbatim>\<open>\r\<close>) on as a line feed. The codec \<^verbatim>\<open>utf-8-sig\<close> removes one byte
  order mark (\<^verbatim>\<open>EF BB BF\<close>) from the start of the file; the codec \<^verbatim>\<open>utf-8\<close> decodes
  it as the code point U+FEFF. \<^verbatim>\<open>open(path, "w", encoding="utf-8")\<close> encodes the code
  points written and writes a line feed as it is (\<^verbatim>\<open>os.linesep\<close> on a POSIX system).
  The text written always comes from a strict decoding, so it holds no surrogate, and
  the encoder has no error.
\<close>

type_synonym bytes = string

type_synonym ustr = "int list"

abbreviation u_newline :: int where
  "u_newline \<equiv> 0x0A"

abbreviation u_return :: int where
  "u_return \<equiv> 0x0D"

abbreviation u_comma :: int where
  "u_comma \<equiv> 0x2C"

abbreviation u_bom :: int where
  "u_bom \<equiv> 0xFEFF"

text \<open>The \<^verbatim>\<open>str\<close> of a text whose code points are below 256.\<close>

definition ustr_of :: "string \<Rightarrow> ustr" where
  "ustr_of s = map of_char s"

subsection \<open>UTF-8\<close>

text \<open>A continuation byte is \<^verbatim>\<open>10xxxxxx\<close> and carries six bits.\<close>

definition is_cont :: "char \<Rightarrow> bool" where
  "is_cont b = (0x80 \<le> (of_char b :: int) \<and> (of_char b :: int) \<le> 0xBF)"

definition cont_bits :: "char \<Rightarrow> int" where
  "cont_bits b = of_char b - 0x80"

text \<open>The code point that starts with the byte \<open>b\<close>, followed by \<open>bs\<close>, and the number
  of continuation bytes it takes; \<open>None\<close> when the bytes are not well formed.\<close>

definition utf8_head :: "char \<Rightarrow> bytes \<Rightarrow> (int \<times> nat) option" where
  "utf8_head b bs =
     (let n = (of_char b :: int)
      in if n < 0x80 then Some (n, 0)
         else if 0xC2 \<le> n \<and> n \<le> 0xDF then
           (case bs of
              c1 # r \<Rightarrow>
                if is_cont c1 then Some ((n - 0xC0) * 64 + cont_bits c1, 1) else None
            | _ \<Rightarrow> None)
         else if 0xE0 \<le> n \<and> n \<le> 0xEF then
           (case bs of
              c1 # c2 # r \<Rightarrow>
                let cp = (n - 0xE0) * 4096 + cont_bits c1 * 64 + cont_bits c2
                in if is_cont c1 \<and> is_cont c2 \<and> 0x800 \<le> cp \<and> \<not> (0xD800 \<le> cp \<and> cp \<le> 0xDFFF)
                   then Some (cp, 2) else None
            | _ \<Rightarrow> None)
         else if 0xF0 \<le> n \<and> n \<le> 0xF4 then
           (case bs of
              c1 # c2 # c3 # r \<Rightarrow>
                let cp = (n - 0xF0) * 262144 + cont_bits c1 * 4096 + cont_bits c2 * 64 + cont_bits c3
                in if is_cont c1 \<and> is_cont c2 \<and> is_cont c3 \<and> 0x10000 \<le> cp \<and> cp \<le> 0x10FFFF
                   then Some (cp, 3) else None
            | _ \<Rightarrow> None)
         else None)"

function utf8_decode :: "bytes \<Rightarrow> ustr option" where
  "utf8_decode [] = Some []"
| "utf8_decode (b # bs) =
     (case utf8_head b bs of
        None \<Rightarrow> None
      | Some (cp, k) \<Rightarrow> map_option (Cons cp) (utf8_decode (drop k bs)))"
  by pat_completeness auto
termination
  by (relation "measure length") auto

definition utf8_encode_char :: "int \<Rightarrow> bytes" where
  "utf8_encode_char cp =
     (if cp < 0x80 then [char_of cp]
      else if cp < 0x800 then [char_of (0xC0 + cp div 64), char_of (0x80 + cp mod 64)]
      else if cp < 0x10000 then
        [char_of (0xE0 + cp div 4096), char_of (0x80 + cp div 64 mod 64), char_of (0x80 + cp mod 64)]
      else
        [char_of (0xF0 + cp div 262144), char_of (0x80 + cp div 4096 mod 64),
         char_of (0x80 + cp div 64 mod 64), char_of (0x80 + cp mod 64)])"

definition utf8_encode :: "ustr \<Rightarrow> bytes" where
  "utf8_encode s = concat (map utf8_encode_char s)"

text \<open>The byte order mark, and the codec \<^verbatim>\<open>utf-8-sig\<close> on the bytes of a file.\<close>

definition bom_bytes :: bytes where
  "bom_bytes = [CHR 0xEF, CHR 0xBB, CHR 0xBF]"

definition decode_utf8_sig :: "bytes \<Rightarrow> ustr option" where
  "decode_utf8_sig b = (if prefix bom_bytes b then utf8_decode (drop 3 b) else utf8_decode b)"

subsection \<open>Reading a text file\<close>

text \<open>Universal newlines: \<^verbatim>\<open>\r\n\<close> and a lone \<^verbatim>\<open>\r\<close> become \<^verbatim>\<open>\n\<close>.\<close>

fun universal_newlines :: "ustr \<Rightarrow> ustr" where
  "universal_newlines [] = []"
| "universal_newlines [c] = [if c = u_return then u_newline else c]"
| "universal_newlines (c # d # s) =
     (if c = u_return \<and> d = u_newline then u_newline # universal_newlines s
      else if c = u_return then u_newline # universal_newlines (d # s)
      else c # universal_newlines (d # s))"

text \<open>The text that reading the whole file with a codec gives, or the exception.\<close>

definition read_text :: "(bytes \<Rightarrow> ustr option) \<Rightarrow> bytes \<Rightarrow> error + ustr" where
  "read_text codec b =
     (case codec b of
        None \<Rightarrow> Inl (UnicodeDecodeError ''invalid data'')
      | Some s \<Rightarrow> Inr (universal_newlines s))"

subsection \<open>The methods of \<^verbatim>\<open>str\<close> on code points\<close>

text \<open>\<^verbatim>\<open>str.isspace\<close> on one code point: U+0009..U+000D, U+001C..U+0020, U+0085,
  U+00A0, U+1680, U+2000..U+200A, U+2028, U+2029, U+202F, U+205F and U+3000. The byte
  order mark U+FEFF is not among them.\<close>

definition u_isspace :: "int \<Rightarrow> bool" where
  "u_isspace c =
     ((0x09 \<le> c \<and> c \<le> 0x0D) \<or> (0x1C \<le> c \<and> c \<le> 0x20) \<or> c = 0x85 \<or> c = 0xA0 \<or>
      c = 0x1680 \<or> (0x2000 \<le> c \<and> c \<le> 0x200A) \<or> c = 0x2028 \<or> c = 0x2029 \<or>
      c = 0x202F \<or> c = 0x205F \<or> c = 0x3000)"

definition u_strip :: "ustr \<Rightarrow> ustr" where
  "u_strip s = rev (dropWhile u_isspace (rev (dropWhile u_isspace s)))"


fun u_split :: "int \<Rightarrow> ustr \<Rightarrow> ustr list" where
  "u_split d [] = [[]]"
| "u_split d (c # cs) =
     (if c = d then [] # u_split d cs
      else (case u_split d cs of
              [] \<Rightarrow> [[c]]
            | f # fs \<Rightarrow> (c # f) # fs))"

fun u_join :: "ustr \<Rightarrow> ustr list \<Rightarrow> ustr" where
  "u_join sep [] = []"
| "u_join sep [x] = x"
| "u_join sep (x # y # ys) = x @ sep @ u_join sep (y # ys)"

text \<open>Iterating over a text file, and \<^verbatim>\<open>readline()\<close>, as for text below 256.\<close>

fun u_lines :: "ustr \<Rightarrow> ustr list" where
  "u_lines [] = []"
| "u_lines (c # cs) =
     (if c = u_newline then [c] # u_lines cs
      else (case u_lines cs of
              [] \<Rightarrow> [[c]]
            | l # ls \<Rightarrow> (c # l) # ls))"

definition u_readline :: "ustr \<Rightarrow> ustr" where
  "u_readline t = (case u_lines t of [] \<Rightarrow> [] | l # _ \<Rightarrow> l)"


section \<open>RunInfo table: truncation and filtering\<close>

text \<open>
  \<^verbatim>\<open>
  def truncate_runinfo(runinfo_path, ncols=22):
      with open(runinfo_path, "r", encoding="utf-8-sig") as infile, \
           open(tmp_path, "w", encoding="utf-8") as outfile:
          for line in infile:
              parts = line.strip().split(",")
              outfile.write(",".join(parts[:ncols]) + "\n")
      shutil.move(tmp_path, runinfo_path)
  \<close>
  The function maps the bytes of the file to the bytes that replace it, or raises when
  the file cannot be decoded; the file is then left as it was.
\<close>

definition truncate_line :: "nat \<Rightarrow> ustr \<Rightarrow> ustr" where
  "truncate_line ncols line = u_join [u_comma] (take ncols (u_split u_comma (u_strip line)))"

definition truncate_text :: "nat \<Rightarrow> ustr \<Rightarrow> ustr" where
  "truncate_text ncols t =
     concat (map (\<lambda>line. truncate_line ncols line @ [u_newline]) (u_lines t))"

definition truncate_runinfo :: "nat \<Rightarrow> bytes \<Rightarrow> error + bytes" where
  "truncate_runinfo ncols file =
     (case read_text decode_utf8_sig file of
        Inl e \<Rightarrow> Inl e
      | Inr t \<Rightarrow> Inr (utf8_encode (truncate_text ncols t)))"

text \<open>
  \<^verbatim>\<open>
  def filter_runinfo_by_scientific_name(runinfo_path, genome):
      genome_lc = genome.lower()
      header = infile.readline()
      outfile.write(header)
      for line in infile:
          cols = line.rstrip("\n").split(",")
          if len(cols) < 22:
              continue
          scientific_name = cols[21].lower()
          if genome_lc in scientific_name:
              outfile.write(line)
  \<close>
\<close>








section \<open>The batch loop\<close>

text \<open>
  \<^verbatim>\<open>
  def main():
      ...
      driver = start_chrome(dl, headless=headless)
      with open(args.input) as f:
          genomes = [l.strip() for l in f if l.strip()]
      try:
          for g in genomes:
              result = process_genome(driver, g, dl, args.threads, dry_run=args.dry_run)
      finally:
          driver.quit()
  \<close>
  \<^verbatim>\<open>process_genome\<close> drives the browser and the network; it is a parameter that, from
  a state of the world \<open>'w\<close>, returns an outcome or raises, and leaves a new state. The
  loop keeps no outcome: \<^verbatim>\<open>result\<close> is overwritten at every turn and never read.
  An exception leaves the \<^verbatim>\<open>for\<close> loop at once; the \<^verbatim>\<open>finally\<close> block runs
  \<^verbatim>\<open>driver.quit()\<close> and the exception goes on out of \<^verbatim>\<open>main\<close>.
\<close>

type_synonym outcome = "string \<times> int \<times> bool"

definition read_genomes :: "string \<Rightarrow> string list" where
  "read_genomes input_text = [py_strip l. l \<leftarrow> py_lines input_text, py_strip l \<noteq> []]"

fun process_all ::
  "(string \<Rightarrow> 'w \<Rightarrow> (error + outcome) \<times> 'w) \<Rightarrow> string list \<Rightarrow> 'w \<Rightarrow> (error + unit) \<times> 'w" where
  "process_all process_genome [] w = (Inr (), w)"
| "process_all process_genome (g # gs) w =
     (case process_genome g w of
        (Inl e, w') \<Rightarrow> (Inl e, w')
      | (Inr result, w') \<Rightarrow> process_all process_genome gs w')"

definition main ::
  "(string \<Rightarrow> 'w \<Rightarrow> (error + outcome) \<times> 'w) \<Rightarrow> ('w \<Rightarrow> 'w) \<Rightarrow> string \<Rightarrow> 'w \<Rightarrow> (error + unit) \<times> 'w" where
  "main process_genome driver_quit input_text w =
     (let genomes = read_genomes input_text
      in case process_all process_genome genomes w of
           (r, w') \<Rightarrow> (r, driver_quit w'))"

text \<open>The exit status of the interpreter: 1 when an exception leaves \<^verbatim>\<open>main\<close>, else 0.\<close>

definition exit_status :: "error + unit \<Rightarrow> nat" where
  "exit_status r = (case r of Inl _ \<Rightarrow> 1 | Inr _ \<Rightarrow> 0)"

section \<open>The read manifest\<close>

subsection \<open>Paths, directory trees and globbing\<close>

text \<open>
  A \<^verbatim>\<open>pathlib\<close> path is the list of its parts, the root (\<^verbatim>\<open>"/"\<close>, or \<^verbatim>\<open>"//"\<close>
  for a path written with exactly two leading slashes) first when the path is
  absolute. Paths are ordered as \<^verbatim>\<open>pathlib\<close> orders them, part by part, and each
  part as a string, code point by code point.
\<close>

type_synonym path = "string list"

definition is_root :: "string \<Rightarrow> bool" where
  "is_root r = (r = ''/'' \<or> r = ''//'')"

definition path_str :: "path \<Rightarrow> string" where
  "path_str p =
     (case p of
        [] \<Rightarrow> ''.''
      | r # ps \<Rightarrow> if is_root r then r @ py_join ''/'' ps else py_join ''/'' p)"

text \<open>\<^verbatim>\<open>Path(s)\<close>: empty components and \<^verbatim>\<open>.\<close> components are dropped.
  \<^verbatim>\<open>p / s\<close>: an absolute \<open>s\<close> replaces \<open>p\<close>.\<close>

definition parse_path :: "string \<Rightarrow> path" where
  "parse_path s =
     (let comps = filter (\<lambda>c. c \<noteq> [] \<and> c \<noteq> ''.'') (py_split (CHR ''/'') s)
      in if prefix ''//'' s \<and> \<not> prefix ''///'' s then ''//'' # comps
         else if prefix ''/'' s then ''/'' # comps
         else comps)"

definition joinpath :: "path \<Rightarrow> string \<Rightarrow> path" where
  "joinpath p s =
     (let q = parse_path s
      in if q \<noteq> [] \<and> is_root (hd q) then q else p @ q)"

definition path_name :: "path \<Rightarrow> string" where
  "path_name p = (if p = [] then [] else last p)"

text \<open>A directory snapshot: a file, or a directory with its entries in the order the
  operating system lists them.\<close>

datatype fs_node = File | Dir "(string \<times> fs_node) list"

fun is_dir :: "fs_node \<Rightarrow> bool" where
  "is_dir File = False"
| "is_dir (Dir _) = True"

text \<open>\<^verbatim>\<open>fnmatch\<close> for a pattern made of literal characters and \<^verbatim>\<open>*\<close>: the whole
  name must match, and \<^verbatim>\<open>*\<close> stands for any run of characters.\<close>

fun fnmatch :: "string \<Rightarrow> string \<Rightarrow> bool" where
  "fnmatch [] [] = True"
| "fnmatch [] (c # cs) = False"
| "fnmatch (p # ps) [] = (p = CHR ''*'' \<and> fnmatch ps [])"
| "fnmatch (p # ps) (c # cs) =
     (if p = CHR ''*'' then fnmatch ps (c # cs) \<or> fnmatch (p # ps) cs
      else p = c \<and> fnmatch ps cs)"

text \<open>\<^verbatim>\<open>input_dir.glob("*/*/.../*")\<close> with \<open>d\<close> stars: the entries \<open>d\<close> levels below,
  reached through directories only, each with the node found there.\<close>

fun glob_stars :: "nat \<Rightarrow> path \<Rightarrow> fs_node \<Rightarrow> (path \<times> fs_node) list" where
  "glob_stars 0 p node = [(p, node)]"
| "glob_stars (Suc d) p File = []"
| "glob_stars (Suc d) p (Dir entries) =
     concat (map (\<lambda>(name, child). glob_stars d (p @ [name]) child) entries)"

text \<open>\<^verbatim>\<open>biosample.glob("*.f*q.gz")\<close>: the entries of one directory whose names match.\<close>

definition glob_fastq :: "path \<Rightarrow> fs_node \<Rightarrow> path list" where
  "glob_fastq p node =
     (case node of
        File \<Rightarrow> []
      | Dir entries \<Rightarrow> [p @ [name]. (name, child) \<leftarrow> entries, fnmatch ''*.f*q.gz'' name])"

subsection \<open>The paired-end patterns\<close>

text \<open>
  \<^verbatim>\<open>
  R1_RE = re.compile(r"(?:^|[_\.-])(?:[RrFf]?1)(?=[_\.-]?\.(?:f(ast)?q)\.gz$)", re.IGNORECASE)
  R2_RE = re.compile(r"(?:^|[_\.-])(?:[RrFf]?2)(?=[_\.-]?\.(?:f(ast)?q)\.gz$)", re.IGNORECASE)
  \<close>
  The two patterns differ in the digit only. \<^verbatim>\<open>R1_RE.search(name)\<close> is true when the
  pattern matches at some position of the name.
\<close>

definition is_sep :: "char \<Rightarrow> bool" where
  "is_sep c = (c = CHR ''_'' \<or> c = CHR ''.'' \<or> c = CHR ''-'')"

text \<open>\<^verbatim>\<open>\.(?:f(ast)?q)\.gz$\<close>, letters in either case; \<^verbatim>\<open>$\<close> is the end of the
  string, or the place before a line feed that ends it.\<close>

definition fastq_gz_end :: "string \<Rightarrow> bool" where
  "fastq_gz_end s =
     (let t = py_lower s
      in t = ''.fq.gz'' \<or> t = ''.fastq.gz'' \<or>
         t = ''.fq.gz'' @ [newline] \<or> t = ''.fastq.gz'' @ [newline])"

text \<open>The lookahead \<^verbatim>\<open>(?=[_\.-]?\.(?:f(ast)?q)\.gz$)\<close>.\<close>

definition lookahead :: "string \<Rightarrow> bool" where
  "lookahead s =
     (fastq_gz_end s \<or> (case s of [] \<Rightarrow> False | c # r \<Rightarrow> is_sep c \<and> fastq_gz_end r))"

text \<open>\<^verbatim>\<open>(?:[RrFf]?1)\<close> followed by the lookahead, read at the start of \<open>s\<close>.\<close>

definition mate_token :: "char \<Rightarrow> string \<Rightarrow> bool" where
  "mate_token digit s =
     (case s of
        [] \<Rightarrow> False
      | c # r \<Rightarrow>
          (c = digit \<and> lookahead r) \<or>
          (c \<in> {CHR ''R'', CHR ''r'', CHR ''F'', CHR ''f''} \<and>
           (case r of [] \<Rightarrow> False | c' # r' \<Rightarrow> c' = digit \<and> lookahead r')))"

text \<open>The alternative \<^verbatim>\<open>[_\.-]\<close> of the first group, tried at every position.\<close>

fun after_sep :: "char \<Rightarrow> string \<Rightarrow> bool" where
  "after_sep digit [] = False"
| "after_sep digit (c # cs) = ((is_sep c \<and> mate_token digit cs) \<or> after_sep digit cs)"

text \<open>The alternative \<^verbatim>\<open>^\<close> holds at the start of the name only.\<close>

definition mate_search :: "char \<Rightarrow> string \<Rightarrow> bool" where
  "mate_search digit name = (mate_token digit name \<or> after_sep digit name)"

definition R1_RE :: "string \<Rightarrow> bool" where
  "R1_RE name = mate_search (CHR ''1'') name"

definition R2_RE :: "string \<Rightarrow> bool" where
  "R2_RE name = mate_search (CHR ''2'') name"

subsection \<open>The writer of the pipeline module\<close>

text \<open>\<^verbatim>\<open>str(n)\<close> for a count: its decimal digits.\<close>

definition digit_char :: "nat \<Rightarrow> char" where
  "digit_char n = char_of (48 + n)"

function str_nat :: "nat \<Rightarrow> string" where
  "str_nat n = (if n < 10 then [digit_char n] else str_nat (n div 10) @ [digit_char (n mod 10)])"
  by pat_completeness auto
termination
  by (relation "measure (\<lambda>n. n)") auto

abbreviation tab :: char where
  "tab \<equiv> CHR 0x09"

definition manifest_header :: string where
  "manifest_header =
     ''biosample_path'' @ [tab] @ ''fastq_count'' @ [tab] @ ''status'' @ [tab] @
     ''short_read_1'' @ [tab] @ ''short_read_2'' @ [tab] @
     ''long_read_primary'' @ [tab] @ ''long_read_extra'' @ [newline]"

text \<open>
  \<^verbatim>\<open>
  short1, short2, long_reads = [], [], []
  for f in files:
      name = f.name
      if R1_RE.search(name):
          short1.append(f)
      elif R2_RE.search(name):
          short2.append(f)
      else:
          long_reads.append(f)
  \<close>
\<close>

fun bucket_reads ::
  "path list \<Rightarrow> path list \<times> path list \<times> path list \<Rightarrow> path list \<times> path list \<times> path list" where
  "bucket_reads [] acc = acc"
| "bucket_reads (f # files) (short1, short2, long_reads) =
     (let name = path_name f
      in if R1_RE name then bucket_reads files (short1 @ [f], short2, long_reads)
         else if R2_RE name then bucket_reads files (short1, short2 @ [f], long_reads)
         else bucket_reads files (short1, short2, long_reads @ [f]))"

text \<open>
  \<^verbatim>\<open>
  has_short = bool(short1 and short2)
  has_long = bool(long_reads)
  if has_short and has_long:  status = "hybrid"
  elif has_short:             status = "short_only"
  elif has_long:              status = "long_only"
  else:                       status = "unknown"
  \<close>
\<close>

definition read_status :: "path list \<times> path list \<times> path list \<Rightarrow> string" where
  "read_status buckets =
     (case buckets of (short1, short2, long_reads) \<Rightarrow>
        let has_short = (short1 \<noteq> [] \<and> short2 \<noteq> []);
            has_long = (long_reads \<noteq> [])
        in if has_short \<and> has_long then ''hybrid''
           else if has_short then ''short_only''
           else if has_long then ''long_only''
           else ''unknown'')"

text \<open>The status column of one sample directory \<open>node\<close> found at \<open>biosample\<close>.\<close>

definition sample_status :: "path \<Rightarrow> fs_node \<Rightarrow> string" where
  "sample_status biosample node =
     read_status (bucket_reads (glob_fastq biosample node) ([], [], []))"

text \<open>
  \<^verbatim>\<open>
  sr1 = str(sorted(short1)[0]) if short1 else ""
  sr2 = str(sorted(short2)[0]) if short2 else ""
  long_primary = str(sorted(long_reads)[0]) if long_reads else ""
  long_extra = ";".join(str(f) for f in sorted(long_reads)[1:]) if len(long_reads) > 1 else ""
  fh.write(f"{biosample}\t{fastq_count}\t{status}\t{sr1}\t{sr2}\t{long_primary}\t{long_extra}\n")
  \<close>
\<close>

definition manifest_row :: "path \<Rightarrow> path list \<Rightarrow> string" where
  "manifest_row biosample files =
     (let fastq_count = length files;
          buckets = bucket_reads files ([], [], []);
          status = read_status buckets
      in case buckets of (short1, short2, long_reads) \<Rightarrow>
        let sr1 = (if short1 \<noteq> [] then path_str (hd (sort short1)) else []);
            sr2 = (if short2 \<noteq> [] then path_str (hd (sort short2)) else []);
            long_primary = (if long_reads \<noteq> [] then path_str (hd (sort long_reads)) else []);
            long_extra = (if length long_reads > 1
                          then py_join '';'' (map path_str (tl (sort long_reads))) else [])
        in path_str biosample @ [tab] @ str_nat fastq_count @ [tab] @ status @ [tab] @
           sr1 @ [tab] @ sr2 @ [tab] @ long_primary @ [tab] @ long_extra @ [newline])"

subsection \<open>The file system that the writers read and change\<close>

text \<open>
  The file system is the tree that stands at \<^verbatim>\<open>/\<close>; a location is the list of the
  names that lead from there to an entry. How the operating system finds the entry
  that a path names (the working directory for a relative path, \<^verbatim>\<open>..\<close>, symbolic
  links on the way) is the parameter \<open>realpath\<close>. \<^verbatim>\<open>Path.resolve()\<close> returns the
  absolute path of that location.
\<close>

type_synonym location = "string list"

definition resolve :: "(path \<Rightarrow> location) \<Rightarrow> path \<Rightarrow> path" where
  "resolve realpath p = ''/'' # realpath p"

fun node_at :: "fs_node \<Rightarrow> location \<Rightarrow> fs_node option" where
  "node_at node [] = Some node"
| "node_at File (x # xs) = None"
| "node_at (Dir entries) (x # xs) =
     (case map_of entries x of None \<Rightarrow> None | Some child \<Rightarrow> node_at child xs)"

text \<open>The entry \<open>x\<close> of a directory replaced where it stands, or added after the others.\<close>

fun put_entry :: "string \<Rightarrow> fs_node \<Rightarrow> (string \<times> fs_node) list \<Rightarrow> (string \<times> fs_node) list" where
  "put_entry x c [] = [(x, c)]"
| "put_entry x c ((y, d) # entries) =
     (if y = x then (x, c) # entries else (y, d) # put_entry x c entries)"

text \<open>\<^verbatim>\<open>p.mkdir(parents=True, exist_ok=True)\<close> for the path at a location: the missing
  directories on the way are made, a directory that exists is left as it is, and a file
  on the way or at the end is an error.\<close>

fun mkdir_parents :: "location \<Rightarrow> fs_node \<Rightarrow> error + fs_node" where
  "mkdir_parents [] File = Inl (FileExistsError ''File exists'')"
| "mkdir_parents [] (Dir entries) = Inr (Dir entries)"
| "mkdir_parents (x # xs) File = Inl (NotADirectoryError ''Not a directory'')"
| "mkdir_parents (x # xs) (Dir entries) =
     (case mkdir_parents xs (case map_of entries x of None \<Rightarrow> Dir [] | Some child \<Rightarrow> child) of
        Inl e \<Rightarrow> Inl e
      | Inr child' \<Rightarrow> Inr (Dir (put_entry x child' entries)))"

text \<open>\<^verbatim>\<open>p.open("w")\<close> for the path at a location: the file is created in its
  directory, or emptied when it exists; the directory must exist.\<close>

fun open_w :: "location \<Rightarrow> fs_node \<Rightarrow> error + fs_node" where
  "open_w [] node = Inl (IsADirectoryError ''Is a directory'')"
| "open_w (x # xs) File = Inl (NotADirectoryError ''Not a directory'')"
| "open_w [x] (Dir entries) =
     (case map_of entries x of
        None \<Rightarrow> Inr (Dir (entries @ [(x, File)]))
      | Some File \<Rightarrow> Inr (Dir entries)
      | Some (Dir _) \<Rightarrow> Inl (IsADirectoryError ''Is a directory''))"
| "open_w (x # y # ys) (Dir entries) =
     (case map_of entries x of
        None \<Rightarrow> Inl (FileNotFoundError ''No such file or directory'')
      | Some child \<Rightarrow>
          (case open_w (y # ys) child of
             Inl e \<Rightarrow> Inl e
           | Inr child' \<Rightarrow> Inr (Dir (put_entry x child' entries))))"

text \<open>\<^verbatim>\<open>p.glob("*.f*q.gz")\<close> for the path \<open>p\<close> that stands at a location.\<close>

definition glob_fastq_at :: "fs_node \<Rightarrow> location \<Rightarrow> path \<Rightarrow> path list" where
  "glob_fastq_at fs loc p = (case node_at fs loc of None \<Rightarrow> [] | Some node \<Rightarrow> glob_fastq p node)"

subsection \<open>Writing the manifest\<close>

text \<open>
  \<^verbatim>\<open>
  def write_read_manifest(input_dir: Path, output_tsv: Path, depth: int = 1):
      glob_pattern = "/".join(["*"] * depth)
      biosample_dirs = [p for p in input_dir.glob(glob_pattern) if p.is_dir()]
      if not biosample_dirs:
          return
      with output_tsv.open("w") as fh:
          fh.write(header)
          for biosample in sorted(biosample_dirs):
              files = list(biosample.glob("*.f*q.gz"))
              ...
  \<close>
  With \<open>depth \<le> 0\<close> the pattern is empty and \<^verbatim>\<open>glob\<close> raises. The sample directories
  are listed before the output file is opened, the read files of each sample after
  it; a sample found at \<open>input_dir / n\<^sub>1 / ... / n\<^sub>d\<close> stands \<open>n\<^sub>1, ..., n\<^sub>d\<close> below the
  location of \<open>input_dir\<close>. The result is the text written, or \<open>None\<close> when the function
  returns without writing.
\<close>

definition write_read_manifest ::
  "(path \<Rightarrow> location) \<Rightarrow> fs_node \<Rightarrow> path \<Rightarrow> path \<Rightarrow> int \<Rightarrow> error + string option" where
  "write_read_manifest realpath fs input_dir output_tsv depth =
     (if depth \<le> 0 then Inl (ValueError ''Unacceptable pattern'')
      else
        let top = realpath input_dir;
            found = (case node_at fs top of
                       None \<Rightarrow> []
                     | Some node \<Rightarrow> glob_stars (nat depth) input_dir node);
            biosample_dirs = filter (\<lambda>(p, node). is_dir node) found
        in if biosample_dirs = [] then Inr None
           else
             (case open_w (realpath output_tsv) fs of
                Inl e \<Rightarrow> Inl e
              | Inr fs' \<Rightarrow>
                  Inr (Some (manifest_header @
                    concat (map (\<lambda>(biosample, node).
                              manifest_row biosample
                                (glob_fastq_at fs' (top @ drop (length input_dir) biosample) biosample))
                           (sort_key fst biosample_dirs))))))"

subsection \<open>The standalone manifest writer\<close>

text \<open>
  \<^verbatim>\<open>additional_scripts/read_manifest_writer.py\<close> compiles the same two patterns at
  module level and repeats the loop:
  \<^verbatim>\<open>
  for f in files:
      name = f.name
      if R1_RE.search(name):   short1.append(f)
      elif R2_RE.search(name): short2.append(f)
      else:                    long_reads.append(f)
  \<close>
\<close>

fun standalone_buckets ::
  "path list \<Rightarrow> path list \<Rightarrow> path list \<Rightarrow> path list \<Rightarrow> path list \<times> path list \<times> path list" where
  "standalone_buckets [] short1 short2 long_reads = (short1, short2, long_reads)"
| "standalone_buckets (f # files) short1 short2 long_reads =
     (if R1_RE (path_name f) then standalone_buckets files (short1 @ [f]) short2 long_reads
      else if R2_RE (path_name f) then standalone_buckets files short1 (short2 @ [f]) long_reads
      else standalone_buckets files short1 short2 (long_reads @ [f]))"

definition standalone_row :: "path \<Rightarrow> path list \<Rightarrow> string" where
  "standalone_row biosample files =
     (case standalone_buckets files [] [] [] of (short1, short2, long_reads) \<Rightarrow>
        let fastq_count = length files;
            has_short = (short1 \<noteq> [] \<and> short2 \<noteq> []);
            has_long = (long_reads \<noteq> []);
            status = (if has_short \<and> has_long then ''hybrid''
                      else if has_short then ''short_only''
                      else if has_long then ''long_only''
                      else ''unknown'');
            sr1 = (if short1 \<noteq> [] then path_str (hd (sort short1)) else []);
            sr2 = (if short2 \<noteq> [] then path_str (hd (sort short2)) else []);
            long_primary = (if long_reads \<noteq> [] then path_str (hd (sort long_reads)) else []);
            long_extra = (if length long_reads > 1
                          then py_join '';'' (map path_str (tl (sort long_reads))) else [])
        in path_str biosample @ [tab] @ str_nat fastq_count @ [tab] @ status @ [tab] @
           sr1 @ [tab] @ sr2 @ [tab] @ long_primary @ [tab] @ long_extra @ [newline])"

text \<open>
  \<^verbatim>\<open>
  def main():
      input_dir = Path(args.input).resolve()
      output_tsv = Path(args.output).resolve()
      depth = args.depth
      if not input_dir.is_dir():
          sys.exit(f"ERROR: input directory does not exist: {input_dir}")
      output_tsv.parent.mkdir(parents=True, exist_ok=True)
      glob_pattern = "/".join(["*"] * depth)
      biosample_dirs = [p for p in input_dir.glob(glob_pattern) if p.is_dir()]
      if not biosample_dirs:
          sys.exit(f"ERROR: No biosample directories found at depth {depth} under {input_dir}")
      with output_tsv.open("w") as fh:
          fh.write(header)
          for biosample in sorted(biosample_dirs): ...
  \<close>
  The two paths are resolved first; the directory of the output file is made, with
  its parents, before the sample directories are listed.
\<close>

definition standalone_main ::
  "(path \<Rightarrow> location) \<Rightarrow> fs_node \<Rightarrow> path \<Rightarrow> path \<Rightarrow> int \<Rightarrow> error + string" where
  "standalone_main realpath fs input output depth =
     (let top = realpath input;
          input_dir = ''/'' # top;
          out = realpath output
      in if \<not> (case node_at fs top of Some (Dir _) \<Rightarrow> True | _ \<Rightarrow> False)
         then Inl (SystemExit (''ERROR: input directory does not exist: '' @ path_str input_dir))
         else
           (case mkdir_parents (butlast out) fs of
              Inl e \<Rightarrow> Inl e
            | Inr fs1 \<Rightarrow>
                if depth \<le> 0 then Inl (ValueError ''Unacceptable pattern'')
                else
                  let found = (case node_at fs1 top of
                                 None \<Rightarrow> []
                               | Some node \<Rightarrow> glob_stars (nat depth) input_dir node);
                      biosample_dirs = filter (\<lambda>(p, node). is_dir node) found
                  in if biosample_dirs = []
                     then Inl (SystemExit (''ERROR: No biosample directories found at depth '' @
                            str_nat (nat depth) @ '' under '' @ path_str input_dir))
                     else
                       (case open_w out fs1 of
                          Inl e \<Rightarrow> Inl e
                        | Inr fs2 \<Rightarrow>
                            Inr (manifest_header @
                              concat (map (\<lambda>(biosample, node).
                                        standalone_row biosample
                                          (glob_fastq_at fs2 (top @ drop (length input_dir) biosample) biosample))
                                     (sort_key fst biosample_dirs))))))"

section \<open>BioSample metadata\<close>

subsection \<open>Scraping one sample page\<close>

text \<open>A Python \<^verbatim>\<open>dict\<close> from strings to strings, in insertion order:
  \<^verbatim>\<open>d[k] = v\<close> replaces the value in place when \<open>k\<close> is present and appends the pair
  otherwise; \<^verbatim>\<open>d.get(k, default)\<close> reads.\<close>

type_synonym pydict = "(string \<times> string) list"

fun dict_set :: "string \<Rightarrow> string \<Rightarrow> pydict \<Rightarrow> pydict" where
  "dict_set k v [] = [(k, v)]"
| "dict_set k v ((k', v') # d) = (if k' = k then (k, v) # d else (k', v') # dict_set k v d)"

definition dict_get :: "pydict \<Rightarrow> string \<Rightarrow> string \<Rightarrow> string" where
  "dict_get d k dflt = (case map_of d k of None \<Rightarrow> dflt | Some v \<Rightarrow> v)"

text \<open>\<^verbatim>\<open>re.sub(r"\s+", "_", key)\<close>: every maximal run of whitespace becomes one
  underscore.\<close>

function sub_whitespace :: "string \<Rightarrow> string" where
  "sub_whitespace [] = []"
| "sub_whitespace (c # cs) =
     (if isspace c then CHR ''_'' # sub_whitespace (dropWhile isspace cs)
      else c # sub_whitespace cs)"
  by pat_completeness auto
termination
  by (relation "measure length") (auto simp: length_dropWhile_le less_Suc_eq_le)

text \<open>
  The page the browser shows for a sample: the rows of the attribute table and the rows
  of the other tables, each row with the text of its \<^verbatim>\<open>th\<close> and of its \<^verbatim>\<open>td\<close>
  cell, \<open>None\<close> when \<^verbatim>\<open>find_element\<close> raises for that cell. The browser itself is the
  function \<open>driver\<close>: for a sample identifier it raises, or finds no attribute table
  within the wait (\<open>None\<close>), or shows a page.
\<close>

record page =
  attribute_rows :: "(string option \<times> string option) list"
  extra_rows :: "(string option \<times> string option) list"

type_synonym driver = "string \<Rightarrow> error + page option"

text \<open>
  The module defines \<^verbatim>\<open>scrape_biosample_metadata\<close> twice; the second definition
  replaces the first and is the one in force:
  \<^verbatim>\<open>
  record = {"BioSample": biosample}
  for row in rows:                      # attribute table
      try:
          key = row.find_element(By.TAG_NAME, "th").text.strip()
          val = row.find_element(By.TAG_NAME, "td").text.strip()
          key = re.sub(r"\s+", "_", key)
          record[key] = val
      except Exception:
          continue
  for row in extra_rows:
      try:
          key = ...; val = ...; key = re.sub(r"\s+", "_", key)
          # Avoid overwriting BioSample
          if key != "Accession":
              record[key] = val
      except Exception:
          continue
  return record
  \<close>
\<close>

fun attribute_table_loop :: "(string option \<times> string option) list \<Rightarrow> pydict \<Rightarrow> pydict" where
  "attribute_table_loop [] rec = rec"
| "attribute_table_loop ((th, td) # rows) rec =
     (case th of
        None \<Rightarrow> attribute_table_loop rows rec
      | Some th_text \<Rightarrow>
          (case td of
             None \<Rightarrow> attribute_table_loop rows rec
           | Some td_text \<Rightarrow>
               let key = py_strip th_text;
                   val = py_strip td_text;
                   key = sub_whitespace key
               in attribute_table_loop rows (dict_set key val rec)))"

fun extra_rows_loop :: "(string option \<times> string option) list \<Rightarrow> pydict \<Rightarrow> pydict" where
  "extra_rows_loop [] rec = rec"
| "extra_rows_loop ((th, td) # rows) rec =
     (case th of
        None \<Rightarrow> extra_rows_loop rows rec
      | Some th_text \<Rightarrow>
          (case td of
             None \<Rightarrow> extra_rows_loop rows rec
           | Some td_text \<Rightarrow>
               let key = py_strip th_text;
                   val = py_strip td_text;
                   key = sub_whitespace key
               in if key \<noteq> ''Accession'' then extra_rows_loop rows (dict_set key val rec)
                  else extra_rows_loop rows rec))"

definition scrape_biosample_metadata :: "driver \<Rightarrow> string \<Rightarrow> error + pydict option" where
  "scrape_biosample_metadata driver biosample =
     (case driver biosample of
        Inl e \<Rightarrow> Inl e
      | Inr None \<Rightarrow> Inr None
      | Inr (Some pg) \<Rightarrow>
          let rec = [(''BioSample'', biosample)];
              rec = attribute_table_loop (attribute_rows pg) rec;
              rec = extra_rows_loop (extra_rows pg) rec
          in Inr (Some rec))"

subsection \<open>Collecting the records and writing the table\<close>

text \<open>
  \<^verbatim>\<open>
  def _task(bs):
      try:
          rec = scrape_biosample_metadata(driver, bs)
          if rec:
              rec = {k: v for k, v in rec.items() if v.strip()}
              rec = {"BioSample": rec.pop("BioSample"), **rec}
          return rec
      except Exception as e:
          return None
  \<close>
  \<^verbatim>\<open>rec.pop("BioSample")\<close> raises \<^verbatim>\<open>KeyError\<close> when the key has been filtered
  out; the handler turns every exception into \<open>None\<close>.
\<close>

definition task :: "driver \<Rightarrow> string \<Rightarrow> pydict option" where
  "task driver bs =
     (case scrape_biosample_metadata driver bs of
        Inl e \<Rightarrow> None
      | Inr None \<Rightarrow> None
      | Inr (Some rec) \<Rightarrow>
          if rec = [] then Some rec
          else
            let rec1 = filter (\<lambda>(k, v). py_strip v \<noteq> []) rec
            in (case map_of rec1 ''BioSample'' of
                  None \<Rightarrow> None
                | Some b \<Rightarrow> Some ((''BioSample'', b) # filter (\<lambda>(k, v). k \<noteq> ''BioSample'') rec1)))"

text \<open>
  \<^verbatim>\<open>
  futures = {executor.submit(_task, bs): bs for bs in biosamples}
  for future in as_completed(futures):
      res = future.result()
      if res:
          records.append(res)
  \<close>
  \<open>completed\<close> lists the sample identifiers in the order in which their futures
  complete; the records are appended in that order.
\<close>

definition collect_records :: "driver \<Rightarrow> string list \<Rightarrow> pydict list" where
  "collect_records driver completed =
     map the (filter (\<lambda>res. res \<noteq> None \<and> res \<noteq> Some []) (map (task driver) completed))"

text \<open>
  \<^verbatim>\<open>
  all_keys = set()
  for rec in records:
      all_keys.update(rec.keys())
  all_keys = ["BioSample"] + sorted(k for k in all_keys if k != "BioSample")
  df = pd.DataFrame([{k: r.get(k, "") for k in all_keys} for r in records])
  if "Attributes" in df.columns:
      df = df.drop(columns=["Attributes"])
  df.to_csv(output_tsv, sep="\t", index=False)
  \<close>
  A data frame is its list of column names and its list of rows, each row with one
  cell per column.
\<close>

type_synonym frame = "string list \<times> string list list"

definition all_keys_of :: "pydict list \<Rightarrow> string list" where
  "all_keys_of records =
     ''BioSample'' # sort (remdups (filter (\<lambda>k. k \<noteq> ''BioSample'') (concat (map (map fst) records))))"

definition data_frame :: "pydict list \<Rightarrow> frame" where
  "data_frame records =
     (let all_keys = all_keys_of records
      in (all_keys, map (\<lambda>r. map (\<lambda>k. dict_get r k []) all_keys) records))"

definition drop_column :: "string \<Rightarrow> frame \<Rightarrow> frame" where
  "drop_column c df =
     (case df of (columns, rows) \<Rightarrow>
        (filter (\<lambda>k. k \<noteq> c) columns,
         map (\<lambda>row. map snd (filter (\<lambda>(k, v). k \<noteq> c) (zip columns row))) rows))"

definition metadata_frame :: "pydict list \<Rightarrow> frame" where
  "metadata_frame records =
     (let df = data_frame records
      in if ''Attributes'' \<in> set (fst df) then drop_column ''Attributes'' df else df)"

text \<open>\<^verbatim>\<open>DataFrame.to_csv(sep="\t", index=False)\<close> of the \<^verbatim>\<open>pandas\<close> library: the
  header line, then one line per row; a field is quoted when it holds a tab, a double
  quote or a line break, with its double quotes doubled.\<close>

definition csv_field :: "string \<Rightarrow> string" where
  "csv_field s =
     (if \<exists>c \<in> set s. c = tab \<or> c = CHR 0x22 \<or> c = newline \<or> c = CHR 0x0D
      then [CHR 0x22] @ concat (map (\<lambda>c. if c = CHR 0x22 then [c, c] else [c]) s) @ [CHR 0x22]
      else s)"

definition csv_lines :: "frame \<Rightarrow> string list" where
  "csv_lines df =
     (case df of (columns, rows) \<Rightarrow>
        map (\<lambda>row. py_join [tab] (map csv_field row) @ [newline]) (columns # rows))"

definition to_csv :: "frame \<Rightarrow> string" where
  "to_csv df = concat (csv_lines df)"

text \<open>The function returns without writing (\<open>None\<close>) when no record was retrieved.\<close>

definition write_biosample_metadata_parallel :: "driver \<Rightarrow> string list \<Rightarrow> string option" where
  "write_biosample_metadata_parallel driver completed =
     (let records = collect_records driver completed
      in if records = [] then None else Some (to_csv (metadata_frame records)))"

section \<open>Downloading the reads\<close>

text \<open>
  The file system as \<^verbatim>\<open>os.path.exists\<close> sees it: what stands at a path, if anything.
  The world is the file system and the list of the commands handed to
  \<^verbatim>\<open>subprocess.call\<close>. Creating directories and running \<^verbatim>\<open>wget\<close> belong to the
  operating system: they are the fields of \<open>os_env\<close>, and may raise.
\<close>

datatype fs_entry = RegularFile nat | Directory

type_synonym filesystem = "string \<Rightarrow> fs_entry option"

record world =
  disk :: filesystem
  transport_calls :: "string list list"

record os_env =
  os_makedirs :: "string \<Rightarrow> filesystem \<Rightarrow> error + filesystem"
  path_mkdir :: "string \<Rightarrow> filesystem \<Rightarrow> error + filesystem"
  subprocess_call :: "string list \<Rightarrow> filesystem \<Rightarrow> error + filesystem"

definition os_path_exists :: "filesystem \<Rightarrow> string \<Rightarrow> bool" where
  "os_path_exists fs p = (fs p \<noteq> None)"

text \<open>\<^verbatim>\<open>os.path.dirname\<close> and \<^verbatim>\<open>os.path.basename\<close> of \<^verbatim>\<open>posixpath\<close>.\<close>

definition os_path_dirname :: "string \<Rightarrow> string" where
  "os_path_dirname p =
     (let head = rev (dropWhile (\<lambda>c. c \<noteq> CHR ''/'') (rev p))
      in if head \<noteq> [] \<and> (\<exists>c \<in> set head. c \<noteq> CHR ''/'')
         then rev (dropWhile (\<lambda>c. c = CHR ''/'') (rev head)) else head)"

definition os_path_basename :: "string \<Rightarrow> string" where
  "os_path_basename p = rev (takeWhile (\<lambda>c. c \<noteq> CHR ''/'') (rev p))"

text \<open>
  \<^verbatim>\<open>
  def wget_download(url, outpath):
      if os.path.exists(outpath):
          return
      os.makedirs(os.path.dirname(outpath), exist_ok=True)
      cmd = ["wget", "-c", "-O", outpath, url, "--tries=10", "--waitretry=5", "--read-timeout=30"]
      subprocess.call(cmd)
  \<close>
\<close>

definition wget_cmd :: "string \<Rightarrow> string \<Rightarrow> string list" where
  "wget_cmd url outpath =
     [''wget'', ''-c'', ''-O'', outpath, url, ''--tries=10'', ''--waitretry=5'', ''--read-timeout=30'']"

definition wget_download :: "os_env \<Rightarrow> string \<Rightarrow> string \<Rightarrow> world \<Rightarrow> error + world" where
  "wget_download env url outpath w =
     (if os_path_exists (disk w) outpath then Inr w
      else (case os_makedirs env (os_path_dirname outpath) (disk w) of
              Inl e \<Rightarrow> Inl e
            | Inr fs1 \<Rightarrow>
                let cmd = wget_cmd url outpath
                in (case subprocess_call env cmd fs1 of
                      Inl e \<Rightarrow> Inl e
                    | Inr fs2 \<Rightarrow> Inr \<lparr>disk = fs2, transport_calls = transport_calls w @ [cmd]\<rparr>)))"

text \<open>\<^verbatim>\<open>pool.starmap(wget_download, tasks)\<close>. The pool runs the tasks on several
  threads; the model runs them one after the other in the order of the list, and a task
  that raises ends the run.\<close>

fun pool_starmap :: "os_env \<Rightarrow> (string \<times> string) list \<Rightarrow> world \<Rightarrow> error + world" where
  "pool_starmap env [] w = Inr w"
| "pool_starmap env ((url, outpath) # tasks) w =
     (case wget_download env url outpath w of
        Inl e \<Rightarrow> Inl e
      | Inr w' \<Rightarrow> pool_starmap env tasks w')"

text \<open>
  \<^verbatim>\<open>
  def download_from_runinfo(runinfo_file, species_dir, threads):
      df = pd.read_csv(runinfo_file, usecols=["Run", "BioSample", "Download_path"], ...)
      df = df.applymap(lambda x: x.strip() if isinstance(x, str) else x)
      tasks = []
      for _, row in df.iterrows():
          run = row["Run"]; biosample = row["BioSample"]; download_paths = row["Download_path"]
          if not biosample or not download_paths:
              continue
          urls = [u for u in download_paths.split("|")
                  if u.startswith("ftp://") or u.startswith("http://")]
          if not urls:
              continue
          biosample_dir = species_dir / biosample
          biosample_dir.mkdir(parents=True, exist_ok=True)
          for url in urls:
              fname = os.path.basename(url)
              outpath = biosample_dir / fname
              tasks.append((url, str(outpath)))
      if tasks:
          pool = ThreadPool(threads)
          pool.starmap(wget_download, tasks)
  \<close>
  The rows are those \<^verbatim>\<open>pandas\<close> has read from the table, three cells each.
\<close>

record run_row =
  run_cell :: string
  biosample_cell :: string
  download_path_cell :: string

fun build_tasks ::
  "os_env \<Rightarrow> path \<Rightarrow> run_row list \<Rightarrow> (string \<times> string) list \<Rightarrow> world \<Rightarrow>
   error + ((string \<times> string) list \<times> world)" where
  "build_tasks env species_dir [] tasks w = Inr (tasks, w)"
| "build_tasks env species_dir (row # rows) tasks w =
     (let biosample = py_strip (biosample_cell row);
          download_paths = py_strip (download_path_cell row)
      in if biosample = [] \<or> download_paths = [] then build_tasks env species_dir rows tasks w
         else
           let urls = filter (\<lambda>u. prefix ''ftp://'' u \<or> prefix ''http://'' u)
                        (py_split (CHR ''|'') download_paths)
           in if urls = [] then build_tasks env species_dir rows tasks w
              else
                let biosample_dir = joinpath species_dir biosample
                in (case path_mkdir env (path_str biosample_dir) (disk w) of
                      Inl e \<Rightarrow> Inl e
                    | Inr fs1 \<Rightarrow>
                        build_tasks env species_dir rows
                          (tasks @ map (\<lambda>url. (url, path_str (joinpath biosample_dir (os_path_basename url)))) urls)
                          (w\<lparr>disk := fs1\<rparr>)))"

definition download_from_runinfo :: "os_env \<Rightarrow> run_row list \<Rightarrow> path \<Rightarrow> world \<Rightarrow> error + world" where
  "download_from_runinfo env rows species_dir w =
     (case build_tasks env species_dir rows [] w of
        Inl e \<Rightarrow> Inl e
      | Inr (tasks, w1) \<Rightarrow> if tasks \<noteq> [] then pool_starmap env tasks w1 else Inr w1)"

section \<open>Auxiliary notions and example inputs\<close>

text \<open>A list of lines as iteration over a file yields it: no line is empty, a line feed
  stands only at the end of a line, and every line but the last ends in one.\<close>

fun lines_wf :: "string list \<Rightarrow> bool" where
  "lines_wf [] = True"
| "lines_wf [l] = (l \<noteq> [] \<and> newline \<notin> set (butlast l))"
| "lines_wf (l # l' # ls) =
     (l \<noteq> [] \<and> newline \<notin> set (butlast l) \<and> last l = newline \<and> lines_wf (l' # ls))"

fun u_lines_wf :: "ustr list \<Rightarrow> bool" where
  "u_lines_wf [] = True"
| "u_lines_wf [l] = (l \<noteq> [] \<and> u_newline \<notin> set (butlast l))"
| "u_lines_wf (l # l' # ls) =
     (l \<noteq> [] \<and> u_newline \<notin> set (butlast l) \<and> last l = u_newline \<and> u_lines_wf (l' # ls))"

text \<open>The code points that a strict decoding gives: the Unicode scalar values.\<close>

definition scalar :: "int \<Rightarrow> bool" where
  "scalar cp = (0 \<le> cp \<and> cp \<le> 0x10FFFF \<and> \<not> (0xD800 \<le> cp \<and> cp \<le> 0xDFFF))"


text \<open>A file of one line of 23 fields whose 22nd field ends in a space.\<close>

definition trailing_space_example :: bytes where
  "trailing_space_example =
     ''CRR1,,,,,,,,,,,,,,,,,,,,,Escherichia coli ,extra'' @ [newline]"

text \<open>A file of one line of two fields that starts with two byte order marks.\<close>

definition double_bom_example :: bytes where
  "double_bom_example = bom_bytes @ bom_bytes @ ''a,b'' @ [newline]"

text \<open>A file that starts with a byte order mark, whose two lines have 23 and 24 fields,
  none ending in whitespace, and end in \<^verbatim>\<open>\r\n\<close>; the second field of the second line
  is the letter U+00E9, two bytes in UTF-8. The text that is read from it.\<close>

definition wide_runinfo_example :: bytes where
  "wide_runinfo_example =
     bom_bytes @
     ''Run,c2,c3,c4,c5,c6,c7,c8,c9,c10,c11,c12,c13,c14,c15,c16,c17,c18,c19,c20,c21,ScientificName,Note'' @
     [CHR 0x0D, newline] @
     ''CRR1,'' @ [CHR 0xC3, CHR 0xA9] @ '',,,,,,,,,,,,,,,,,,,,Escherichia coli,free, text'' @
     [CHR 0x0D, newline]"

definition wide_runinfo_text :: ustr where
  "wide_runinfo_text =
     ustr_of
       (''Run,c2,c3,c4,c5,c6,c7,c8,c9,c10,c11,c12,c13,c14,c15,c16,c17,c18,c19,c20,c21,ScientificName,Note'' @
        [newline] @
        ''CRR1,'' @ [CHR 0xE9] @ '',,,,,,,,,,,,,,,,,,,,Escherichia coli,free, text'' @
        [newline])"





text \<open>A \<^verbatim>\<open>process_genome\<close> that records the entities it is called on, and raises on
  the entity \<^verbatim>\<open>bad\<close>; a \<^verbatim>\<open>driver.quit\<close> that records its call.\<close>

definition logging_process_genome :: "string \<Rightarrow> string list \<Rightarrow> (error + outcome) \<times> string list" where
  "logging_process_genome g log =
     (if g = ''bad'' then (Inl (WebDriverException ''bad''), log @ [g])
      else (Inr (g, 1, True), log @ [g]))"

definition logging_quit :: "string list \<Rightarrow> string list" where
  "logging_quit log = log @ [''quit'']"

text \<open>Sample directories: one with a forward mate alone, one with a forward mate and an
  unpaired read file.\<close>

definition orphan_dir :: fs_node where
  "orphan_dir = Dir [(''sample_R1.fastq.gz'', File)]"

definition orphan_and_long_dir :: fs_node where
  "orphan_and_long_dir = Dir [(''sample_R1.fastq.gz'', File), (''nanopore.fastq.gz'', File)]"

text \<open>A file system without symbolic links: the location of a path is found by
  walking its parts, from the root for an absolute path and from the working directory
  otherwise, \<^verbatim>\<open>..\<close> leading one level up.\<close>

fun walk :: "location \<Rightarrow> string list \<Rightarrow> location" where
  "walk loc [] = loc"
| "walk loc (x # xs) = (if x = ''..'' then walk (butlast loc) xs else walk (loc @ [x]) xs)"

definition realpath_from :: "location \<Rightarrow> path \<Rightarrow> location" where
  "realpath_from cwd p =
     (case p of [] \<Rightarrow> cwd | r # ps \<Rightarrow> if is_root r then walk [] ps else walk cwd p)"

text \<open>A download directory \<^verbatim>\<open>/data/dl\<close> with the directory of one species, which holds
  its RunInfo table and one sample with a pair and a long read; the pipeline was
  started in \<^verbatim>\<open>/data/run\<close>.\<close>

definition data_fs :: fs_node where
  "data_fs =
     Dir [(''data'',
       Dir [(''run'', Dir []),
            (''dl'',
              Dir [(''Escherichia_coli'',
                Dir [(''SAMC1'', Dir [(''b.fastq.gz'', File), (''a_2.fastq.gz'', File), (''a_1.fastq.gz'', File)]),
                     (''Escherichia_coli_RunInfo.csv'', File)])])])]"

definition run_dir :: location where
  "run_dir = [''data'', ''run'']"

text \<open>The species directory as \<^verbatim>\<open>main\<close> builds it for \<^verbatim>\<open>--download-dir ../dl\<close>
  (\<^verbatim>\<open>Path("../dl").absolute() / "Escherichia_coli"\<close>), and in resolved form.\<close>

definition species_dir_absolute :: path where
  "species_dir_absolute = [''/'', ''data'', ''run'', ''..'', ''dl'', ''Escherichia_coli'']"

definition species_dir_resolved :: path where
  "species_dir_resolved = [''/'', ''data'', ''dl'', ''Escherichia_coli'']"

text \<open>The manifest of that species directory at depth 1, with the directory written
  as \<open>root\<close>; and the row of an empty sample directory \<^verbatim>\<open>manifests\<close>.\<close>

definition species_manifest :: "string \<Rightarrow> string" where
  "species_manifest root =
     manifest_header @
     root @ ''/SAMC1'' @ [tab] @ ''3'' @ [tab] @ ''hybrid'' @ [tab] @
     root @ ''/SAMC1/a_1.fastq.gz'' @ [tab] @ root @ ''/SAMC1/a_2.fastq.gz'' @ [tab] @
     root @ ''/SAMC1/b.fastq.gz'' @ [tab] @ [newline]"

definition manifests_row :: "string \<Rightarrow> string" where
  "manifests_row root =
     root @ ''/manifests'' @ [tab] @ ''0'' @ [tab] @ ''unknown'' @ [tab] @ [tab] @ [tab] @ [tab] @ [newline]"

text \<open>A sample page whose supplementary rows hold the accession and a row named
  \<^verbatim>\<open>BioSample\<close>; a browser that shows it for every identifier.\<close>

definition overwriting_page :: page where
  "overwriting_page =
     \<lparr>attribute_rows = [(Some ''Sample name'', Some ''E. coli K12'')],
      extra_rows = [(Some ''Accession'', Some ''SAMC000001''), (Some ''BioSample'', Some ''SAMC999999'')]\<rparr>"

definition overwriting_driver :: driver where
  "overwriting_driver biosample = Inr (Some overwriting_page)"


text \<open>A non-empty regular file stands at a path; a world whose only entry is a file of
  a given size; an operating system whose calls create what they are asked for.\<close>

definition is_nonempty_file :: "filesystem \<Rightarrow> string \<Rightarrow> bool" where
  "is_nonempty_file fs p = (case fs p of Some (RegularFile n) \<Rightarrow> 0 < n | _ \<Rightarrow> False)"

definition world_with_file :: "string \<Rightarrow> nat \<Rightarrow> world" where
  "world_with_file p n =
     \<lparr>disk = (\<lambda>q. if q = p then Some (RegularFile n) else None), transport_calls = []\<rparr>"

definition creating_env :: os_env where
  "creating_env =
     \<lparr>os_makedirs = (\<lambda>d fs. Inr (fs(d \<mapsto> Directory))),
      path_mkdir = (\<lambda>d fs. Inr (fs(d \<mapsto> Directory))),
      subprocess_call = (\<lambda>cmd fs. Inr (fs(cmd ! 3 \<mapsto> RegularFile 1)))\<rparr>"

text \<open>A browser whose pages differ in their keys: \<^verbatim>\<open>SAMC1\<close> has a host and a nested
  \<^verbatim>\<open>Attributes\<close> row, every other sample a strain.\<close>

definition mixed_driver :: driver where
  "mixed_driver biosample =
     (if biosample = ''SAMC1''
      then Inr (Some \<lparr>attribute_rows = [(Some ''Host'', Some ''Homo sapiens''), (Some ''Attributes'', Some ''nested'')],
                       extra_rows = []\<rparr>)
      else Inr (Some \<lparr>attribute_rows = [(Some ''Strain'', Some ''K12'')], extra_rows = []\<rparr>))"


section \<open>Properties of the lines of a text\<close>

lemma py_lines_eq_Nil [simp]: "py_lines t = [] \<longleftrightarrow> t = []"
  by (cases t) (auto split: list.splits)

lemma concat_py_lines [simp]: "concat (py_lines t) = t"
  by (induction t) (auto split: list.splits)




lemma lines_wf_member:
  "lines_wf ls \<Longrightarrow> l \<in> set ls \<Longrightarrow> l \<noteq> [] \<and> newline \<notin> set (butlast l)"
  by (induction ls rule: lines_wf.induct) auto




lemma lines_wf_map_full:
  "\<forall>x\<in>set xs. newline \<notin> set (f x) \<Longrightarrow> lines_wf (map (\<lambda>x. f x @ [newline]) xs)"
proof (induction xs)
  case Nil
  then show ?case by simp
next
  case (Cons x xs)
  then show ?case by (cases xs) auto
qed

section \<open>Properties of the filter by scientific name\<close>







section \<open>Properties of the codec and of reading a text file\<close>

lemma of_char_char_of_int: "0 \<le> k \<Longrightarrow> k < 256 \<Longrightarrow> (of_char (char_of (k::int)) :: int) = k"
  by simp

lemma utf8_head_1:
  assumes "0 \<le> c" "c < 0x80"
  shows "utf8_head (char_of c) r = Some (c, 0)"
proof -
  have "(of_char (char_of c) :: int) = c"
    using assms by (intro of_char_char_of_int) auto
  then show ?thesis using assms by (simp add: utf8_head_def Let_def)
qed

lemma utf8_head_2:
  assumes "0x80 \<le> c" "c < 0x800"
  shows "utf8_head (char_of (0xC0 + c div 64)) (char_of (0x80 + c mod 64) # r) = Some (c, 1)"
proof -
  define a where "a = c div 64"
  define b where "b = c mod 64"
  have c: "c = a * 64 + b" by (simp add: a_def b_def)
  have a: "2 \<le> a" "a \<le> 31" using assms by (auto simp: a_def)
  have b: "0 \<le> b" "b \<le> 63" by (auto simp: b_def)
  have x: "(of_char (char_of (0xC0 + a)) :: int) = 0xC0 + a"
    using a by (intro of_char_char_of_int) auto
  have y: "(of_char (char_of (0x80 + b)) :: int) = 0x80 + b"
    using b by (intro of_char_char_of_int) auto
  show ?thesis
    unfolding a_def [symmetric] b_def [symmetric]
    using a b by (simp add: utf8_head_def Let_def is_cont_def cont_bits_def x y c)
qed

lemma utf8_head_3:
  assumes "0x800 \<le> c" "c < 0x10000" "\<not> (0xD800 \<le> c \<and> c \<le> 0xDFFF)"
  shows "utf8_head (char_of (0xE0 + c div 4096))
           (char_of (0x80 + c div 64 mod 64) # char_of (0x80 + c mod 64) # r) = Some (c, 2)"
proof -
  define a where "a = c div 4096"
  define b where "b = c div 64 mod 64"
  define d where "d = c mod 64"
  have "c = (c div 64) * 64 + d" by (simp add: d_def)
  moreover have "c div 64 = (c div 64 div 64) * 64 + b" by (simp add: b_def)
  moreover have "c div 64 div 64 = a" by (simp add: a_def div_mult2_eq [symmetric])
  ultimately have c: "c = a * 4096 + b * 64 + d" by simp
  have a: "0 \<le> a" "a \<le> 15" using assms by (auto simp: a_def)
  have b: "0 \<le> b" "b \<le> 63" by (auto simp: b_def)
  have d: "0 \<le> d" "d \<le> 63" by (auto simp: d_def)
  have x: "(of_char (char_of (0xE0 + a)) :: int) = 0xE0 + a"
    using a by (intro of_char_char_of_int) auto
  have y: "(of_char (char_of (0x80 + b)) :: int) = 0x80 + b"
    using b by (intro of_char_char_of_int) auto
  have z: "(of_char (char_of (0x80 + d)) :: int) = 0x80 + d"
    using d by (intro of_char_char_of_int) auto
  have r: "0x800 \<le> a * 4096 + b * 64 + d"
    "a * 4096 + b * 64 + d < 0xD800 \<or> 0xDFFF < a * 4096 + b * 64 + d"
    using assms c by auto
  show ?thesis
    unfolding a_def [symmetric] b_def [symmetric] d_def [symmetric]
    using a b d r by (auto simp: utf8_head_def Let_def is_cont_def cont_bits_def x y z c)
qed

lemma utf8_head_4:
  assumes "0x10000 \<le> c" "c \<le> 0x10FFFF"
  shows "utf8_head (char_of (0xF0 + c div 262144))
           (char_of (0x80 + c div 4096 mod 64) # char_of (0x80 + c div 64 mod 64) #
            char_of (0x80 + c mod 64) # r) = Some (c, 3)"
proof -
  define a where "a = c div 262144"
  define b where "b = c div 4096 mod 64"
  define d where "d = c div 64 mod 64"
  define e where "e = c mod 64"
  have "c = (c div 64) * 64 + e" by (simp add: e_def)
  moreover have "c div 64 = (c div 64 div 64) * 64 + d" by (simp add: d_def)
  moreover have "c div 64 div 64 = c div 4096" by (simp add: div_mult2_eq [symmetric])
  moreover have "c div 4096 = (c div 4096 div 64) * 64 + b" by (simp add: b_def)
  moreover have "c div 4096 div 64 = a" by (simp add: a_def div_mult2_eq [symmetric])
  ultimately have c: "c = a * 262144 + b * 4096 + d * 64 + e" by simp
  have a: "0 \<le> a" "a \<le> 4" using assms by (auto simp: a_def)
  have b: "0 \<le> b" "b \<le> 63" by (auto simp: b_def)
  have d: "0 \<le> d" "d \<le> 63" by (auto simp: d_def)
  have e: "0 \<le> e" "e \<le> 63" by (auto simp: e_def)
  have x: "(of_char (char_of (0xF0 + a)) :: int) = 0xF0 + a"
    using a by (intro of_char_char_of_int) auto
  have y: "(of_char (char_of (0x80 + b)) :: int) = 0x80 + b"
    using b by (intro of_char_char_of_int) auto
  have z: "(of_char (char_of (0x80 + d)) :: int) = 0x80 + d"
    using d by (intro of_char_char_of_int) auto
  have w: "(of_char (char_of (0x80 + e)) :: int) = 0x80 + e"
    using e by (intro of_char_char_of_int) auto
  have r: "0x10000 \<le> a * 262144 + b * 4096 + d * 64 + e" "a * 262144 + b * 4096 + d * 64 + e \<le> 0x10FFFF"
    using assms c by auto
  show ?thesis
    unfolding a_def [symmetric] b_def [symmetric] d_def [symmetric] e_def [symmetric]
    using a b d e r by (auto simp: utf8_head_def Let_def is_cont_def cont_bits_def x y z w c)
qed

lemma utf8_decode_encode_char:
  assumes "scalar c"
  shows "utf8_decode (utf8_encode_char c @ r) = map_option (Cons c) (utf8_decode r)"
proof -
  consider "c < 0x80" | "0x80 \<le> c" "c < 0x800" | "0x800 \<le> c" "c < 0x10000" | "0x10000 \<le> c"
    by linarith
  then show ?thesis
  proof cases
    case 1
    then show ?thesis
      using assms utf8_head_1 [of c r] by (simp add: utf8_encode_char_def scalar_def)
  next
    case 2
    then show ?thesis
      using utf8_head_2 [of c r] by (simp add: utf8_encode_char_def)
  next
    case 3
    then show ?thesis
      using assms utf8_head_3 [of c r] by (simp add: utf8_encode_char_def scalar_def)
  next
    case 4
    then show ?thesis
      using assms utf8_head_4 [of c r] by (simp add: utf8_encode_char_def scalar_def)
  qed
qed

lemma utf8_decode_encode:
  "\<forall>c\<in>set s. scalar c \<Longrightarrow> utf8_decode (utf8_encode s) = Some s"
  by (induction s) (simp_all add: utf8_encode_def utf8_decode_encode_char)

lemma utf8_head_scalar:
  assumes "utf8_head b bs = Some (cp, k)"
  shows "scalar cp"
proof -
  have "(of_char b :: int) mod 256 = of_char b"
    by simp
  then have n: "(of_char b :: int) < 256" "0 \<le> (of_char b :: int)"
    using pos_mod_bound [of 256 "of_char b :: int"] pos_mod_sign [of 256 "of_char b :: int"]
    by simp_all
  have cb: "is_cont x \<Longrightarrow> 0 \<le> cont_bits x \<and> cont_bits x \<le> 63" for x
    by (auto simp: is_cont_def cont_bits_def)
  show ?thesis
    using assms n
    by (auto simp: utf8_head_def Let_def scalar_def split: if_splits list.splits dest!: cb)
qed

lemma utf8_decode_scalar:
  "utf8_decode bs = Some s \<Longrightarrow> \<forall>c\<in>set s. scalar c"
proof (induction bs arbitrary: s rule: utf8_decode.induct)
  case 1
  then show ?case by simp
next
  case (2 b bs)
  then show ?case
    by (auto split: option.splits dest: utf8_head_scalar)
qed

lemma utf8_encode_char_bom: "utf8_encode_char u_bom = bom_bytes"
  by code_simp

lemma scalar_bom: "scalar u_bom"
  by (simp add: scalar_def)

lemma utf8_encode_bom:
  assumes "\<forall>c\<in>set s. scalar c" "prefix bom_bytes (utf8_encode s)"
  shows "s \<noteq> [] \<and> hd s = u_bom"
proof -
  obtain r where r: "utf8_encode s = utf8_encode_char u_bom @ r"
    using assms(2) unfolding utf8_encode_char_bom by (auto simp: prefix_def)
  have "utf8_decode (utf8_encode s) = Some s"
    using assms(1) by (rule utf8_decode_encode)
  then have "map_option (Cons u_bom) (utf8_decode r) = Some s"
    unfolding r utf8_decode_encode_char [OF scalar_bom] .
  then show ?thesis by auto
qed

lemma universal_newlines_id: "u_return \<notin> set s \<Longrightarrow> universal_newlines s = s"
  by (induction s rule: universal_newlines.induct) auto

lemma universal_newlines_set: "set (universal_newlines s) \<subseteq> insert u_newline (set s - {u_return})"
  by (induction s rule: universal_newlines.induct) auto

lemma read_text_clean:
  assumes "read_text codec b = Inr t" "codec = utf8_decode \<or> codec = decode_utf8_sig"
  shows "\<forall>c\<in>set t. scalar c \<and> c \<noteq> u_return"
proof -
  obtain s where s: "codec b = Some s" and t: "t = universal_newlines s"
    using assms(1) by (auto simp: read_text_def split: option.splits)
  have "\<exists>b'. utf8_decode b' = Some s"
    using assms(2) s by (auto simp: decode_utf8_sig_def split: if_splits)
  then have "\<forall>c\<in>set s. scalar c"
    using utf8_decode_scalar by blast
  moreover have "scalar u_newline"
    by (simp add: scalar_def)
  ultimately show ?thesis
    using universal_newlines_set [of s] unfolding t by auto
qed

lemma read_text_utf8_encode:
  assumes "\<forall>c\<in>set y. scalar c \<and> c \<noteq> u_return"
  shows "read_text utf8_decode (utf8_encode y) = Inr y"
proof -
  have "utf8_decode (utf8_encode y) = Some y"
    using assms by (intro utf8_decode_encode) auto
  moreover have "universal_newlines y = y"
    using assms by (intro universal_newlines_id) auto
  ultimately show ?thesis by (simp add: read_text_def)
qed

lemma read_text_sig_encode:
  assumes "\<forall>c\<in>set y. scalar c \<and> c \<noteq> u_return" "y = [] \<or> hd y \<noteq> u_bom"
  shows "read_text decode_utf8_sig (utf8_encode y) = Inr y"
proof -
  have sc: "\<forall>c\<in>set y. scalar c" using assms(1) by auto
  have "\<not> prefix bom_bytes (utf8_encode y)"
    using utf8_encode_bom [OF sc] assms(2) by auto
  then have "decode_utf8_sig (utf8_encode y) = utf8_decode (utf8_encode y)"
    by (simp add: decode_utf8_sig_def)
  then have "read_text decode_utf8_sig (utf8_encode y) = read_text utf8_decode (utf8_encode y)"
    by (simp add: read_text_def)
  then show ?thesis using read_text_utf8_encode [OF assms(1)] by simp
qed

section \<open>Properties of the methods of \<^verbatim>\<open>str\<close> on code points\<close>

lemma u_lines_eq_Nil [simp]: "u_lines t = [] \<longleftrightarrow> t = []"
  by (cases t) (auto split: list.splits)

lemma concat_u_lines [simp]: "concat (u_lines t) = t"
  by (induction t) (auto split: list.splits)

lemma u_lines_no_newline: "u_newline \<notin> set b \<Longrightarrow> b \<noteq> [] \<Longrightarrow> u_lines b = [b]"
proof (induction b)
  case Nil
  then show ?case by simp
next
  case (Cons a b)
  then show ?case by (cases "b = []") auto
qed

lemma u_lines_full_line:
  "u_newline \<notin> set b \<Longrightarrow> u_lines (b @ u_newline # rest) = (b @ [u_newline]) # u_lines rest"
  by (induction b) (auto split: list.splits)

lemma u_lines_wf_u_lines: "u_lines_wf (u_lines t)"
proof (induction t)
  case Nil
  then show ?case by simp
next
  case (Cons c t)
  show ?case
  proof (cases "c = u_newline")
    case True
    then show ?thesis using Cons by (cases "u_lines t") auto
  next
    case False
    show ?thesis
    proof (cases "u_lines t")
      case Nil
      then show ?thesis using False by simp
    next
      case (Cons l ls)
      then show ?thesis using False Cons.IH by (cases ls) (auto simp: butlast_snoc split: if_splits)
    qed
  qed
qed

lemma u_lines_wf_member:
  "u_lines_wf ls \<Longrightarrow> l \<in> set ls \<Longrightarrow> l \<noteq> [] \<and> u_newline \<notin> set (butlast l)"
  by (induction ls rule: u_lines_wf.induct) auto

lemma u_line_ends:
  assumes "l \<noteq> []" "u_newline \<notin> set (butlast l)"
  shows "l = butlast l @ [u_newline] \<or> u_newline \<notin> set l"
proof -
  obtain b c where l: "l = b @ [c]"
    using assms(1) by (cases l rule: rev_cases) auto
  show ?thesis
    using assms(2) unfolding l by (cases "c = u_newline") simp_all
qed

lemma u_lines_concat: "u_lines_wf ls \<Longrightarrow> u_lines (concat ls) = ls"
proof (induction ls rule: u_lines_wf.induct)
  case 1
  then show ?case by simp
next
  case (2 l)
  then have "l \<noteq> []" "u_newline \<notin> set (butlast l)" by auto
  from u_line_ends [OF this] show ?case
  proof
    assume a: "l = butlast l @ [u_newline]"
    have "u_lines (butlast l @ u_newline # []) = (butlast l @ [u_newline]) # u_lines []"
      using \<open>u_newline \<notin> set (butlast l)\<close> by (rule u_lines_full_line)
    then show ?thesis using a by simp
  next
    assume "u_newline \<notin> set l"
    then show ?thesis using \<open>l \<noteq> []\<close> by (simp add: u_lines_no_newline)
  qed
next
  case (3 l l' ls)
  then have "l = butlast l @ [u_newline]" "u_newline \<notin> set (butlast l)"
    using append_butlast_last_id [of l] by auto
  then obtain b where l: "l = b @ [u_newline]" and nb: "u_newline \<notin> set b"
    by blast
  have "u_lines (concat (l # l' # ls)) = u_lines (b @ u_newline # concat (l' # ls))"
    by (simp add: l)
  also have "\<dots> = (b @ [u_newline]) # u_lines (concat (l' # ls))"
    using nb by (rule u_lines_full_line)
  also have "\<dots> = l # l' # ls"
    using 3 l by simp
  finally show ?case .
qed


lemma u_lines_wf_map_full:
  "\<forall>x\<in>set xs. u_newline \<notin> set (f x) \<Longrightarrow> u_lines_wf (map (\<lambda>x. f x @ [u_newline]) xs)"
proof (induction xs)
  case Nil
  then show ?case by simp
next
  case (Cons x xs)
  then show ?case by (cases xs) auto
qed


lemma set_u_strip: "set (u_strip s) \<subseteq> set s"
  unfolding u_strip_def
  by (metis (no_types) set_dropWhileD set_rev subsetI)

lemma dropWhile_all: "\<forall>x\<in>set s. P x \<Longrightarrow> dropWhile P s = []"
  by (induction s) auto

lemma u_strip_snoc_space: "u_isspace c \<Longrightarrow> u_strip (s @ [c]) = u_strip s"
proof (cases "\<forall>x\<in>set s. u_isspace x")
  case True
  assume "u_isspace c"
  then have "\<forall>x\<in>set (s @ [c]). u_isspace x"
    using True by simp
  then have "dropWhile u_isspace (s @ [c]) = []"
    by (rule dropWhile_all)
  moreover have "dropWhile u_isspace s = []"
    using True by (rule dropWhile_all)
  ultimately show ?thesis unfolding u_strip_def by (simp only:)
next
  case False
  assume "u_isspace c"
  then have "dropWhile u_isspace (s @ [c]) = dropWhile u_isspace s @ [c]"
    using False by (auto simp: dropWhile_append)
  then show ?thesis using \<open>u_isspace c\<close> by (simp add: u_strip_def)
qed

lemma u_strip_prefix_decomp: "\<exists>ws. dropWhile u_isspace s = u_strip s @ ws"
proof -
  let ?d = "dropWhile u_isspace s"
  have "rev ?d = takeWhile u_isspace (rev ?d) @ dropWhile u_isspace (rev ?d)"
    by simp
  then have "?d = rev (dropWhile u_isspace (rev ?d)) @ rev (takeWhile u_isspace (rev ?d))"
    by (metis rev_append rev_rev_ident)
  then show ?thesis by (auto simp: u_strip_def)
qed

lemma u_strip_hd: "u_strip s \<noteq> [] \<Longrightarrow> \<not> u_isspace (hd (u_strip s))"
proof -
  assume ne: "u_strip s \<noteq> []"
  obtain ws where d: "dropWhile u_isspace s = u_strip s @ ws"
    using u_strip_prefix_decomp by blast
  then have "hd (dropWhile u_isspace s) = hd (u_strip s)" using ne by simp
  moreover have "dropWhile u_isspace s \<noteq> []" using d ne by simp
  ultimately show ?thesis using hd_dropWhile [of u_isspace s] by metis
qed

lemma u_strip_id:
  "s = [] \<or> (\<not> u_isspace (hd s) \<and> \<not> u_isspace (last s)) \<Longrightarrow> u_strip s = s"
proof (cases "s = []")
  case True
  then show ?thesis by (simp add: u_strip_def)
next
  case False
  assume "s = [] \<or> (\<not> u_isspace (hd s) \<and> \<not> u_isspace (last s))"
  then have h: "\<not> u_isspace (hd s)" and l: "\<not> u_isspace (last s)" using False by auto
  have "dropWhile u_isspace s = s" using h False by (cases s) auto
  moreover have "dropWhile u_isspace (rev s) = rev s"
    using l False by (cases "rev s") (auto simp: last_rev hd_rev)
  ultimately show ?thesis by (simp add: u_strip_def)
qed

lemma u_split_nonempty [simp]: "u_split d s \<noteq> []"
  by (induction s) (auto split: list.splits)

lemma u_split_no_sep: "f \<in> set (u_split d s) \<Longrightarrow> d \<notin> set f"
  by (induction s arbitrary: f) (auto split: list.splits if_splits)

lemma u_split_chars: "f \<in> set (u_split d s) \<Longrightarrow> set f \<subseteq> set s"
proof (induction s arbitrary: f)
  case Nil
  then show ?case by simp
next
  case (Cons c s)
  obtain g gs where g: "u_split d s = g # gs"
    by (cases "u_split d s") auto
  have "set g \<subseteq> set s" "\<forall>h\<in>set gs. set h \<subseteq> set s"
    using Cons.IH g by auto
  then show ?case using Cons.prems g by (auto split: if_splits)
qed

lemma u_split_field: "d \<notin> set f \<Longrightarrow> u_split d (f @ d # rest) = f # u_split d rest"
  by (induction f) (auto split: list.splits)

lemma u_split_single: "d \<notin> set f \<Longrightarrow> u_split d f = [f]"
  by (induction f) (auto split: list.splits)

lemma u_split_join:
  "fs \<noteq> [] \<Longrightarrow> \<forall>f\<in>set fs. d \<notin> set f \<Longrightarrow> u_split d (u_join [d] fs) = fs"
  by (induction "[d]" fs rule: u_join.induct) (auto simp: u_split_single u_split_field)

lemma u_join_split [simp]: "u_join [d] (u_split d s) = s"
proof (induction s)
  case Nil
  then show ?case by simp
next
  case (Cons c s)
  show ?case
  proof (cases "c = d")
    case True
    then show ?thesis using Cons by (cases "u_split d s") auto
  next
    case False
    then show ?thesis using Cons
      by (cases "u_split d s"; cases "tl (u_split d s)") auto
  qed
qed

lemma u_join_take_prefix: "prefix (u_join sep (take n fs)) (u_join sep fs)"
proof (induction sep fs arbitrary: n rule: u_join.induct)
  case (1 sep)
  then show ?case by simp
next
  case (2 sep x)
  then show ?case by (cases n) auto
next
  case (3 sep x y ys)
  show ?case
  proof (cases n)
    case 0
    then show ?thesis by simp
  next
    case (Suc m)
    show ?thesis
    proof (cases m)
      case 0
      then show ?thesis using Suc by simp
    next
      case (Suc k)
      then show ?thesis using \<open>n = Suc m\<close> 3 [of m] by simp
    qed
  qed
qed

lemma u_join_chars: "set (u_join sep fs) \<subseteq> set sep \<union> (\<Union>f\<in>set fs. set f)"
  by (induction sep fs rule: u_join.induct) auto

lemma u_join_snoc:
  "fs \<noteq> [] \<Longrightarrow> u_join sep (fs @ [f]) = u_join sep fs @ sep @ f"
  by (induction sep fs rule: u_join.induct) auto

lemma u_isspace_newline [simp]: "u_isspace u_newline"
  by (simp add: u_isspace_def)

lemma not_u_isspace_comma [simp]: "\<not> u_isspace u_comma"
  by (simp add: u_isspace_def)

section \<open>Properties of the truncation\<close>

lemma line_strip_no_newline:
  assumes "l \<in> set (u_lines t)"
  shows "u_newline \<notin> set (u_strip l)"
proof -
  have ne: "l \<noteq> []" and nb: "u_newline \<notin> set (butlast l)"
    using u_lines_wf_member [OF u_lines_wf_u_lines assms] by auto
  from u_line_ends [OF this] show ?thesis
  proof
    assume "l = butlast l @ [u_newline]"
    then have "u_strip l = u_strip (butlast l)"
      using u_strip_snoc_space [of u_newline "butlast l"] by simp
    then show ?thesis using nb set_u_strip [of "butlast l"] by auto
  next
    assume "u_newline \<notin> set l"
    then show ?thesis using set_u_strip [of l] by auto
  qed
qed

lemma truncate_line_chars: "set (truncate_line n l) \<subseteq> insert u_comma (set (u_strip l))"
proof -
  have "(\<Union>f\<in>set (take n (u_split u_comma (u_strip l))). set f) \<subseteq> set (u_strip l)"
    using u_split_chars [of _ u_comma "u_strip l"] by (auto dest: in_set_takeD)
  moreover have "set (u_join [u_comma] (take n (u_split u_comma (u_strip l)))) \<subseteq>
      insert u_comma (\<Union>f\<in>set (take n (u_split u_comma (u_strip l))). set f)"
    using u_join_chars [of "[u_comma]" "take n (u_split u_comma (u_strip l))"] by simp
  ultimately show ?thesis
    unfolding truncate_line_def by blast
qed

lemma truncate_line_no_newline:
  "l \<in> set (u_lines t) \<Longrightarrow> u_newline \<notin> set (truncate_line n l)"
  using truncate_line_chars [of n l] line_strip_no_newline [of l t] by auto

lemma u_lines_truncate_text:
  "u_lines (truncate_text n t) = map (\<lambda>l. truncate_line n l @ [u_newline]) (u_lines t)"
  unfolding truncate_text_def
  by (rule u_lines_concat, rule u_lines_wf_map_full) (simp add: truncate_line_no_newline)

lemma truncate_line_prefix: "prefix (truncate_line n l) (u_strip l)"
  unfolding truncate_line_def
  using u_join_take_prefix [of "[u_comma]" n "u_split u_comma (u_strip l)"] by simp

lemma truncate_line_hd:
  "truncate_line n l \<noteq> [] \<Longrightarrow> \<not> u_isspace (hd (truncate_line n l))"
proof -
  assume ne: "truncate_line n l \<noteq> []"
  obtain r where r: "u_strip l = truncate_line n l @ r"
    using truncate_line_prefix [of n l] by (auto simp: prefix_def)
  then have "hd (u_strip l) = hd (truncate_line n l)" "u_strip l \<noteq> []"
    using ne by auto
  then show ?thesis using u_strip_hd [of l] by simp
qed

lemma truncate_line_twice:
  assumes "truncate_line n l = [] \<or> \<not> u_isspace (last (truncate_line n l))"
  shows "truncate_line n (truncate_line n l @ [u_newline]) = truncate_line n l"
proof -
  let ?J = "truncate_line n l"
  let ?fs = "u_split u_comma (u_strip l)"
  have "u_strip (?J @ [u_newline]) = u_strip ?J"
    by (rule u_strip_snoc_space) simp
  also have "\<dots> = ?J"
    using assms truncate_line_hd [of n l] by (intro u_strip_id) auto
  finally have strip: "u_strip (?J @ [u_newline]) = ?J" .
  show ?thesis
  proof (cases n)
    case 0
    then show ?thesis by (simp add: truncate_line_def)
  next
    case (Suc m)
    then have "take n ?fs \<noteq> []" by (cases ?fs) auto
    moreover have "\<forall>f\<in>set (take n ?fs). u_comma \<notin> set f"
      using u_split_no_sep [of _ u_comma "u_strip l"] by (auto dest: in_set_takeD)
    ultimately have "u_split u_comma (u_join [u_comma] (take n ?fs)) = take n ?fs"
      using u_split_join [of "take n ?fs" u_comma] by simp
    then have "u_split u_comma ?J = take n ?fs"
      by (simp add: truncate_line_def)
    then have "truncate_line n (?J @ [u_newline]) = u_join [u_comma] (take n (take n ?fs))"
      using strip by (simp add: truncate_line_def)
    then show ?thesis by (simp add: truncate_line_def)
  qed
qed

lemma truncate_line_last:
  assumes "n \<le> length (u_split u_comma (u_strip l))" "0 < n"
    and "u_split u_comma (u_strip l) ! (n - 1) = [] \<or>
         \<not> u_isspace (last (u_split u_comma (u_strip l) ! (n - 1)))"
  shows "truncate_line n l = [] \<or> \<not> u_isspace (last (truncate_line n l))"
proof -
  let ?fs = "u_split u_comma (u_strip l)"
  let ?f = "?fs ! (n - 1)"
  have tk: "take n ?fs = take (n - 1) ?fs @ [?f]"
    using assms(1,2) by (metis Suc_diff_1 Suc_le_lessD take_Suc_conv_app_nth)
  show ?thesis
  proof (cases "take (n - 1) ?fs = []")
    case True
    then have "truncate_line n l = ?f" using tk by (simp add: truncate_line_def)
    then show ?thesis using assms(3) by auto
  next
    case False
    then have "truncate_line n l = u_join [u_comma] (take (n - 1) ?fs) @ [u_comma] @ ?f"
      using tk u_join_snoc [of "take (n - 1) ?fs" "[u_comma]" ?f] by (simp add: truncate_line_def)
    then show ?thesis using assms(3) by (cases "?f = []") auto
  qed
qed


lemma u_line_chars: "l \<in> set (u_lines t) \<Longrightarrow> set l \<subseteq> set t"
proof -
  assume a: "l \<in> set (u_lines t)"
  have "set t = set (concat (u_lines t))" by simp
  also have "\<dots> = (\<Union>x\<in>set (u_lines t). set x)" by (simp only: set_concat)
  finally show ?thesis using a by blast
qed

lemma truncate_text_chars: "set (truncate_text n t) \<subseteq> insert u_comma (insert u_newline (set t))"
proof -
  have "set (truncate_line n l) \<subseteq> insert u_comma (set t)" if "l \<in> set (u_lines t)" for l
    using truncate_line_chars [of n l] set_u_strip [of l] u_line_chars [OF that] by blast
  then show ?thesis
    unfolding truncate_text_def by auto
qed

lemma truncate_text_clean:
  assumes "\<forall>c\<in>set t. scalar c \<and> c \<noteq> u_return"
  shows "\<forall>c\<in>set (truncate_text n t). scalar c \<and> c \<noteq> u_return"
proof -
  have "scalar u_comma" "scalar u_newline" by (simp_all add: scalar_def)
  then show ?thesis
    using assms truncate_text_chars [of n t] by auto
qed


lemma truncate_text_hd:
  assumes "\<not> prefix [u_bom] (u_strip (u_readline t))"
  shows "truncate_text n t = [] \<or> hd (truncate_text n t) \<noteq> u_bom"
proof (cases "u_lines t")
  case Nil
  then show ?thesis by (simp add: truncate_text_def)
next
  case (Cons l ls)
  then have rl: "u_readline t = l" by (simp add: u_readline_def)
  have y: "truncate_text n t = truncate_line n l @ u_newline # concat (map (\<lambda>line. truncate_line n line @ [u_newline]) ls)"
    using Cons by (simp add: truncate_text_def)
  show ?thesis
  proof (cases "truncate_line n l = []")
    case True
    then show ?thesis using y by simp
  next
    case False
    obtain r where r: "u_strip l = truncate_line n l @ r"
      using truncate_line_prefix [of n l] by (auto simp: prefix_def)
    then have "hd (u_strip l) = hd (truncate_line n l)" "u_strip l \<noteq> []"
      using False by auto
    moreover have "hd (u_strip l) \<noteq> u_bom"
      using assms \<open>u_strip l \<noteq> []\<close> unfolding rl by (cases "u_strip l") auto
    ultimately show ?thesis using y False by simp
  qed
qed

lemma truncate_text_twice:
  assumes "\<forall>line \<in> set (u_lines t).
      ncols \<le> length (u_split u_comma (u_strip line)) \<and>
      (ncols = 0 \<or> u_split u_comma (u_strip line) ! (ncols - 1) = [] \<or>
       \<not> u_isspace (last (u_split u_comma (u_strip line) ! (ncols - 1))))"
  shows "truncate_text ncols (truncate_text ncols t) = truncate_text ncols t"
proof -
  have twice: "truncate_line ncols (truncate_line ncols l @ [u_newline]) = truncate_line ncols l"
    if "l \<in> set (u_lines t)" for l
  proof (cases "ncols = 0")
    case True
    then have "truncate_line ncols l = []" by (simp add: truncate_line_def)
    then show ?thesis by (intro truncate_line_twice) simp
  next
    case False
    then show ?thesis
      using assms that by (intro truncate_line_twice truncate_line_last) auto
  qed
  have "truncate_text ncols (truncate_text ncols t) =
        concat (map (\<lambda>l. truncate_line ncols l @ [u_newline])
                  (map (\<lambda>l. truncate_line ncols l @ [u_newline]) (u_lines t)))"
    by (simp add: truncate_text_def [of ncols "truncate_text ncols t"]
          u_lines_truncate_text)
  also have "\<dots> = concat (map (\<lambda>l. truncate_line ncols l @ [u_newline]) (u_lines t))"
    using twice by (simp add: comp_def cong: map_cong)
  finally show ?thesis by (simp add: truncate_text_def)
qed

text \<open>
  C5, as amended. For every file that is well-formed UTF-8, in which every line has at
  least \<open>ncols\<close> comma-separated fields, on no line the \<open>ncols\<close>-th field ends in a
  whitespace character, and whose first line does not begin, once the byte order mark
  that the reader removes and the whitespace at its start are put aside, with a byte
  order mark, truncating succeeds and truncating its result gives the same bytes again.
  (The lines and the fields are those of the text read, each line with the whitespace
  at its two ends removed, as the function reads them.)
\<close>

theorem truncate_runinfo_idempotent_clean:
  assumes "read_text decode_utf8_sig file = Inr t"
    and "\<forall>line \<in> set (u_lines t).
      ncols \<le> length (u_split u_comma (u_strip line)) \<and>
      (ncols = 0 \<or> u_split u_comma (u_strip line) ! (ncols - 1) = [] \<or>
       \<not> u_isspace (last (u_split u_comma (u_strip line) ! (ncols - 1))))"
    and "\<not> prefix [u_bom] (u_strip (u_readline t))"
  shows "\<exists>out. truncate_runinfo ncols file = Inr out \<and> truncate_runinfo ncols out = Inr out"
proof -
  let ?y = "truncate_text ncols t"
  have once: "truncate_runinfo ncols file = Inr (utf8_encode ?y)"
    using assms(1) by (simp add: truncate_runinfo_def)
  have "\<forall>c\<in>set t. scalar c \<and> c \<noteq> u_return"
    using assms(1) by (rule read_text_clean) simp
  then have "\<forall>c\<in>set ?y. scalar c \<and> c \<noteq> u_return"
    by (rule truncate_text_clean)
  moreover have "?y = [] \<or> hd ?y \<noteq> u_bom"
    using assms(3) by (rule truncate_text_hd)
  ultimately have "read_text decode_utf8_sig (utf8_encode ?y) = Inr ?y"
    by (rule read_text_sig_encode)
  then have "truncate_runinfo ncols (utf8_encode ?y) = Inr (utf8_encode (truncate_text ncols ?y))"
    by (simp add: truncate_runinfo_def)
  then have "truncate_runinfo ncols (utf8_encode ?y) = Inr (utf8_encode ?y)"
    using truncate_text_twice [OF assms(2)] by simp
  then show ?thesis using once by simp
qed

theorem truncate_runinfo_idempotent_clean_witness:
  "read_text decode_utf8_sig wide_runinfo_example = Inr wide_runinfo_text \<and>
   length (u_lines wide_runinfo_text) = 2 \<and>
   (\<exists>out. truncate_runinfo 22 wide_runinfo_example = Inr out \<and> truncate_runinfo 22 out = Inr out)"
proof -
  have r: "read_text decode_utf8_sig wide_runinfo_example = Inr wide_runinfo_text"
    by code_simp
  have h: "\<forall>line \<in> set (u_lines wide_runinfo_text).
      22 \<le> length (u_split u_comma (u_strip line)) \<and>
      (22 = (0::nat) \<or> u_split u_comma (u_strip line) ! (22 - 1) = [] \<or>
       \<not> u_isspace (last (u_split u_comma (u_strip line) ! (22 - 1))))"
    by code_simp
  have b: "\<not> prefix [u_bom] (u_strip (u_readline wide_runinfo_text))"
    by code_simp
  have len: "length (u_lines wide_runinfo_text) = 2"
    by code_simp
  have twice: "\<exists>out. truncate_runinfo 22 wide_runinfo_example = Inr out \<and> truncate_runinfo 22 out = Inr out"
    using r h b by (rule truncate_runinfo_idempotent_clean)
  show ?thesis
    by (intro conjI) (rule r, rule len, rule twice)
qed

theorem truncate_runinfo_twice_counterexample:
  "read_text decode_utf8_sig trailing_space_example =
     Inr (ustr_of trailing_space_example) \<and>
   u_lines (ustr_of trailing_space_example) = [ustr_of trailing_space_example] \<and>
   length (u_split u_comma (u_strip (ustr_of trailing_space_example))) = 23 \<and>
   truncate_runinfo 22 trailing_space_example =
     Inr (''CRR1,,,,,,,,,,,,,,,,,,,,,Escherichia coli '' @ [newline]) \<and>
   truncate_runinfo 22 (''CRR1,,,,,,,,,,,,,,,,,,,,,Escherichia coli '' @ [newline]) =
     Inr (''CRR1,,,,,,,,,,,,,,,,,,,,,Escherichia coli'' @ [newline]) \<and>
   truncate_runinfo 2 double_bom_example = Inr (bom_bytes @ ''a,b'' @ [newline]) \<and>
   truncate_runinfo 2 (bom_bytes @ ''a,b'' @ [newline]) = Inr (''a,b'' @ [newline])"
proof -
  have a: "read_text decode_utf8_sig trailing_space_example =
     Inr (ustr_of trailing_space_example)"
    by code_simp
  have b: "u_lines (ustr_of trailing_space_example) = [ustr_of trailing_space_example]"
    by code_simp
  have c: "length (u_split u_comma (u_strip (ustr_of trailing_space_example))) = 23"
    by code_simp
  have d: "truncate_runinfo 22 trailing_space_example =
     Inr (''CRR1,,,,,,,,,,,,,,,,,,,,,Escherichia coli '' @ [newline])"
    by code_simp
  have e: "truncate_runinfo 22 (''CRR1,,,,,,,,,,,,,,,,,,,,,Escherichia coli '' @ [newline]) =
     Inr (''CRR1,,,,,,,,,,,,,,,,,,,,,Escherichia coli'' @ [newline])"
    by code_simp
  have f: "truncate_runinfo 2 double_bom_example = Inr (bom_bytes @ ''a,b'' @ [newline])"
    by code_simp
  have g: "truncate_runinfo 2 (bom_bytes @ ''a,b'' @ [newline]) = Inr (''a,b'' @ [newline])"
    by code_simp
  show ?thesis
    by (intro conjI) (rule a, rule b, rule c, rule d, rule e, rule f, rule g)
qed

section \<open>Properties of the RunInfo steps of one entity\<close>





section \<open>Properties of the batch loop\<close>

lemma process_all_append:
  "process_all pg (xs @ ys) w =
     (case process_all pg xs w of
        (Inl e, w') \<Rightarrow> (Inl e, w')
      | (Inr u, w') \<Rightarrow> process_all pg ys w')"
  by (induction xs arbitrary: w) (auto split: prod.splits sum.splits)

lemma process_all_no_exception:
  "\<forall>g w. \<exists>r w'. pg g w = (Inr r, w') \<Longrightarrow> \<exists>w'. process_all pg gs w = (Inr (), w')"
proof (induction gs arbitrary: w)
  case Nil
  then show ?case by simp
next
  case (Cons g gs)
  then obtain r w' where "pg g w = (Inr r, w')" by blast
  then show ?case using Cons by simp
qed

text \<open>
  C7, as amended. An entity whose processing returns (whatever its outcome) never stops
  the batch: when no entity raises, every entity is processed and \<^verbatim>\<open>main\<close> returns
  with exit status 0. When processing an entity raises, no later entity is processed:
  the state left by the failing entity goes straight to \<^verbatim>\<open>driver.quit()\<close>, the
  exception leaves \<^verbatim>\<open>main\<close> and the exit status is 1. No outcome is recorded in
  either case.
\<close>

theorem main_stops_at_first_exception:
  "(read_genomes input_text = gs1 @ g # gs2 \<and>
    process_all process_genome gs1 w = (Inr (), w1) \<and>
    process_genome g w1 = (Inl e, w2) \<longrightarrow>
      main process_genome driver_quit input_text w = (Inl e, driver_quit w2) \<and>
      exit_status (fst (main process_genome driver_quit input_text w)) = 1) \<and>
   ((\<forall>g w. \<exists>r w'. process_genome g w = (Inr r, w')) \<longrightarrow>
      fst (main process_genome driver_quit input_text w) = Inr () \<and>
      exit_status (fst (main process_genome driver_quit input_text w)) = 0)"
proof (intro conjI impI)
  assume h: "read_genomes input_text = gs1 @ g # gs2 \<and>
    process_all process_genome gs1 w = (Inr (), w1) \<and> process_genome g w1 = (Inl e, w2)"
  then have "process_all process_genome (gs1 @ g # gs2) w = (Inl e, w2)"
    by (simp add: process_all_append)
  then show m: "main process_genome driver_quit input_text w = (Inl e, driver_quit w2)"
    using h by (simp add: main_def)
  show "exit_status (fst (main process_genome driver_quit input_text w)) = 1"
    by (simp add: m exit_status_def)
next
  assume a: "\<forall>g w. \<exists>r w'. process_genome g w = (Inr r, w')"
  obtain w' where "process_all process_genome (read_genomes input_text) w = (Inr (), w')"
    using process_all_no_exception [OF a, of "read_genomes input_text" w] by blast
  then show m: "fst (main process_genome driver_quit input_text w) = Inr ()"
    by (simp add: main_def)
  show "exit_status (fst (main process_genome driver_quit input_text w)) = 0"
    by (simp add: m exit_status_def)
qed

theorem main_stops_at_first_exception_witness:
  "main logging_process_genome logging_quit (''good'' @ [newline] @ ''bad'' @ [newline] @ ''later'' @ [newline]) [] =
     (Inl (WebDriverException ''bad''), [''good'', ''bad'', ''quit'']) \<and>
   fst (main (\<lambda>g log. (Inr (g, 0, False), log @ [g])) logging_quit
          (''good'' @ [newline] @ ''later'' @ [newline]) []) = Inr ()"
proof -
  let ?inp = "''good'' @ [newline] @ ''bad'' @ [newline] @ ''later'' @ [newline]"
  have g: "read_genomes ?inp = [''good''] @ ''bad'' # [''later'']"
    by code_simp
  have p: "process_all logging_process_genome [''good''] [] = (Inr (), [''good''])"
    by code_simp
  have b: "logging_process_genome ''bad'' [''good''] = (Inl (WebDriverException ''bad''), [''good'', ''bad''])"
    by code_simp
  have q: "logging_quit [''good'', ''bad''] = [''good'', ''bad'', ''quit'']"
    by code_simp
  have first: "main logging_process_genome logging_quit ?inp [] =
      (Inl (WebDriverException ''bad''), logging_quit [''good'', ''bad''])"
    using main_stops_at_first_exception [of ?inp "[''good'']" "''bad''" "[''later'']"
        logging_process_genome "[]" "[''good'']" "WebDriverException ''bad''" "[''good'', ''bad'']" logging_quit]
      g p b by blast
  have ok: "\<forall>g w. \<exists>r w'. (\<lambda>g log. (Inr (g, 0, False), log @ [g])) g w = (Inr r, w')"
    by (intro allI exI) (rule refl)
  have second: "fst (main (\<lambda>g log. (Inr (g, 0, False), log @ [g])) logging_quit
          (''good'' @ [newline] @ ''later'' @ [newline]) []) = Inr ()"
    using main_stops_at_first_exception [of "''good'' @ [newline] @ ''later'' @ [newline]" "[]" "[]" "[]"
        "\<lambda>g log. (Inr (g, 0, False), log @ [g])" "[]" "[]" "WebDriverException []" "[]" logging_quit]
      ok by blast
  show ?thesis
    unfolding q [symmetric] by (intro conjI) (rule first, rule second)
qed

theorem main_batch_counterexample:
  "read_genomes (''good'' @ [newline] @ ''bad'' @ [newline] @ ''later'' @ [newline]) =
     [''good'', ''bad'', ''later''] \<and>
   main logging_process_genome logging_quit
     (''good'' @ [newline] @ ''bad'' @ [newline] @ ''later'' @ [newline]) [] =
     (Inl (WebDriverException ''bad''), [''good'', ''bad'', ''quit'']) \<and>
   exit_status (Inl (WebDriverException ''bad'')) = 1"
proof -
  have a: "read_genomes (''good'' @ [newline] @ ''bad'' @ [newline] @ ''later'' @ [newline]) =
     [''good'', ''bad'', ''later'']"
    by code_simp
  have b: "main logging_process_genome logging_quit
     (''good'' @ [newline] @ ''bad'' @ [newline] @ ''later'' @ [newline]) [] =
     (Inl (WebDriverException ''bad''), [''good'', ''bad'', ''quit''])"
    by code_simp
  have c: "exit_status (Inl (WebDriverException ''bad'')) = 1"
    by (simp add: exit_status_def)
  show ?thesis
    by (intro conjI) (rule a, rule b, rule c)
qed

section \<open>Properties of the read manifest\<close>

lemma bucket_reads_filter:
  "bucket_reads files (s1, s2, lr) =
     (s1 @ filter (\<lambda>f. R1_RE (path_name f)) files,
      s2 @ filter (\<lambda>f. \<not> R1_RE (path_name f) \<and> R2_RE (path_name f)) files,
      lr @ filter (\<lambda>f. \<not> R1_RE (path_name f) \<and> \<not> R2_RE (path_name f)) files)"
  by (induction files arbitrary: s1 s2 lr) (simp_all add: Let_def)

lemma filter_empty_iff: "filter P xs = [] \<longleftrightarrow> (\<forall>x\<in>set xs. \<not> P x)"
  by (induction xs) auto

text \<open>
  C1. The classifier puts each globbed file in the read-1 bucket when its name matches
  the read-1 pattern, else in the read-2 bucket when it matches the read-2 pattern,
  else in the long bucket. The status is \<open>short_only\<close> or \<open>hybrid\<close> exactly when both
  short buckets are non-empty. So in a sample directory where no file reaches the
  read-2 bucket (a forward mate without its reverse mate), the status is \<open>long_only\<close>
  when some file is in the long bucket, \<open>unknown\<close> otherwise, and never \<open>short_only\<close>.
\<close>

theorem orphan_mate_never_short_only:
  "bucket_reads files ([], [], []) =
     (filter (\<lambda>f. R1_RE (path_name f)) files,
      filter (\<lambda>f. \<not> R1_RE (path_name f) \<and> R2_RE (path_name f)) files,
      filter (\<lambda>f. \<not> R1_RE (path_name f) \<and> \<not> R2_RE (path_name f)) files) \<and>
   ((sample_status biosample node = ''short_only'' \<or> sample_status biosample node = ''hybrid'') =
      ((\<exists>f \<in> set (glob_fastq biosample node). R1_RE (path_name f)) \<and>
       (\<exists>f \<in> set (glob_fastq biosample node). \<not> R1_RE (path_name f) \<and> R2_RE (path_name f)))) \<and>
   ((\<forall>f \<in> set (glob_fastq biosample node). R1_RE (path_name f) \<or> \<not> R2_RE (path_name f)) \<longrightarrow>
      sample_status biosample node =
        (if \<exists>f \<in> set (glob_fastq biosample node). \<not> R1_RE (path_name f)
         then ''long_only'' else ''unknown'') \<and>
      sample_status biosample node \<noteq> ''short_only'')"
proof (intro conjI impI)
  show "bucket_reads files ([], [], []) =
     (filter (\<lambda>f. R1_RE (path_name f)) files,
      filter (\<lambda>f. \<not> R1_RE (path_name f) \<and> R2_RE (path_name f)) files,
      filter (\<lambda>f. \<not> R1_RE (path_name f) \<and> \<not> R2_RE (path_name f)) files)"
    by (simp add: bucket_reads_filter)
next
  show "(sample_status biosample node = ''short_only'' \<or> sample_status biosample node = ''hybrid'') =
      ((\<exists>f \<in> set (glob_fastq biosample node). R1_RE (path_name f)) \<and>
       (\<exists>f \<in> set (glob_fastq biosample node). \<not> R1_RE (path_name f) \<and> R2_RE (path_name f)))"
    unfolding sample_status_def read_status_def bucket_reads_filter
    by (simp add: Let_def filter_empty_iff)
next
  assume orphan: "\<forall>f \<in> set (glob_fastq biosample node). R1_RE (path_name f) \<or> \<not> R2_RE (path_name f)"
  then have s2: "filter (\<lambda>f. \<not> R1_RE (path_name f) \<and> R2_RE (path_name f)) (glob_fastq biosample node) = []"
    by (auto simp: filter_empty_iff)
  have lr: "filter (\<lambda>f. \<not> R1_RE (path_name f) \<and> \<not> R2_RE (path_name f)) (glob_fastq biosample node) = [] \<longleftrightarrow>
      \<not> (\<exists>f \<in> set (glob_fastq biosample node). \<not> R1_RE (path_name f))"
    using orphan by (auto simp: filter_empty_iff)
  show "sample_status biosample node =
        (if \<exists>f \<in> set (glob_fastq biosample node). \<not> R1_RE (path_name f)
         then ''long_only'' else ''unknown'')"
    unfolding sample_status_def read_status_def bucket_reads_filter
    using lr by (simp add: Let_def s2)
  then show "sample_status biosample node \<noteq> ''short_only''"
    by (auto split: if_splits)
qed

theorem orphan_mate_never_short_only_witness:
  "R1_RE ''sample_R1.fastq.gz'' \<and> \<not> R2_RE ''sample_R1.fastq.gz'' \<and>
   sample_status [''SAMC1''] orphan_dir = ''unknown'' \<and>
   sample_status [''SAMC1''] orphan_and_long_dir = ''long_only''"
proof -
  have r1: "R1_RE ''sample_R1.fastq.gz''" by code_simp
  have r2: "\<not> R2_RE ''sample_R1.fastq.gz''" by code_simp
  have h1: "\<forall>f \<in> set (glob_fastq [''SAMC1''] orphan_dir). R1_RE (path_name f) \<or> \<not> R2_RE (path_name f)"
    by code_simp
  have n1: "\<not> (\<exists>f \<in> set (glob_fastq [''SAMC1''] orphan_dir). \<not> R1_RE (path_name f))"
    by code_simp
  have h2: "\<forall>f \<in> set (glob_fastq [''SAMC1''] orphan_and_long_dir). R1_RE (path_name f) \<or> \<not> R2_RE (path_name f)"
    by code_simp
  have n2: "\<exists>f \<in> set (glob_fastq [''SAMC1''] orphan_and_long_dir). \<not> R1_RE (path_name f)"
    by code_simp
  have a: "sample_status [''SAMC1''] orphan_dir = ''unknown''"
    using orphan_mate_never_short_only [of "[]" "[''SAMC1'']" orphan_dir] h1 n1
    by (simp only: if_False simp_thms)
  have b: "sample_status [''SAMC1''] orphan_and_long_dir = ''long_only''"
    using orphan_mate_never_short_only [of "[]" "[''SAMC1'']" orphan_and_long_dir] h2 n2
    by (simp only: if_True simp_thms)
  show ?thesis
    by (intro conjI) (rule r1, rule r2, rule a, rule b)
qed

lemma standalone_buckets_bucket_reads:
  "standalone_buckets files s1 s2 lr = bucket_reads files (s1, s2, lr)"
  by (induction files arbitrary: s1 s2 lr) (simp_all add: Let_def)

lemma standalone_row_manifest_row: "standalone_row biosample files = manifest_row biosample files"
proof -
  obtain s1 s2 lr where bk: "bucket_reads files ([], [], []) = (s1, s2, lr)"
    by (cases "bucket_reads files ([], [], [])") auto
  show ?thesis
    unfolding standalone_row_def manifest_row_def standalone_buckets_bucket_reads bk read_status_def
    by (simp only: Let_def prod.case)
qed

lemma put_entry_same: "map_of entries x = Some c \<Longrightarrow> put_entry x c entries = entries"
  by (induction entries) (auto split: if_splits)

lemma mkdir_parents_existing:
  "node_at fs loc = Some (Dir entries) \<Longrightarrow> mkdir_parents loc fs = Inr fs"
proof (induction loc arbitrary: fs)
  case Nil
  then show ?case by simp
next
  case (Cons x xs)
  show ?case
  proof (cases fs)
    case File
    then show ?thesis using Cons.prems by simp
  next
    case (Dir es)
    then obtain child where c: "map_of es x = Some child" and n: "node_at child xs = Some (Dir entries)"
      using Cons.prems by (auto split: option.splits)
    have "mkdir_parents xs child = Inr child"
      using n by (rule Cons.IH)
    then show ?thesis
      using c by (simp add: Dir put_entry_same)
  qed
qed

text \<open>
  C10, as amended. The standalone script resolves its two paths and makes the
  directory of the output file before it lists the sample directories; the writer of
  the pipeline module uses its paths as they are given and makes no directory. When
  the directory of the output file exists, the standalone script writes a manifest
  exactly when the writer of the pipeline module, handed the resolved input root and
  the resolved output path over the same file system with the same depth, writes one,
  and the two texts are then identical (same header, same rows in the same order).
  (That resolving a resolved path changes nothing is a property of the operating
  system, assumed of \<open>realpath\<close>.)
\<close>

theorem standalone_main_matches_on_resolved_paths:
  assumes "realpath (resolve realpath input) = realpath input"
    and "realpath (resolve realpath output) = realpath output"
    and "\<exists>entries. node_at fs (butlast (realpath output)) = Some (Dir entries)"
  shows "(standalone_main realpath fs input output depth = Inr content) =
         (write_read_manifest realpath fs (resolve realpath input) (resolve realpath output) depth =
            Inr (Some content))"
proof -
  let ?top = "realpath input"
  let ?dir = "''/'' # realpath input"
  let ?out = "realpath output"
  let ?found = "case node_at fs ?top of None \<Rightarrow> [] | Some node \<Rightarrow> glob_stars (nat depth) ?dir node"
  let ?dirs = "filter (\<lambda>(p, node). is_dir node) ?found"
  let ?rows = "\<lambda>fs'. manifest_header @ concat (map (\<lambda>(biosample, node).
      manifest_row biosample (glob_fastq_at fs' (?top @ drop (length ?dir) biosample) biosample))
      (sort_key fst ?dirs))"
  have mk: "mkdir_parents (butlast ?out) fs = Inr fs"
    using assms(3) by (auto intro: mkdir_parents_existing)
  have wm: "write_read_manifest realpath fs (resolve realpath input) (resolve realpath output) depth =
      (if depth \<le> 0 then Inl (ValueError ''Unacceptable pattern'')
       else if ?dirs = [] then Inr None
       else (case open_w ?out fs of Inl e \<Rightarrow> Inl e | Inr fs' \<Rightarrow> Inr (Some (?rows fs'))))"
    unfolding write_read_manifest_def assms(1,2)
    unfolding resolve_def
    by (simp only: Let_def)
  have sm: "standalone_main realpath fs input output depth =
      (if \<not> (case node_at fs ?top of Some (Dir _) \<Rightarrow> True | _ \<Rightarrow> False)
       then Inl (SystemExit (''ERROR: input directory does not exist: '' @ path_str ?dir))
       else if depth \<le> 0 then Inl (ValueError ''Unacceptable pattern'')
       else if ?dirs = []
         then Inl (SystemExit (''ERROR: No biosample directories found at depth '' @
                str_nat (nat depth) @ '' under '' @ path_str ?dir))
         else (case open_w ?out fs of Inl e \<Rightarrow> Inl e | Inr fs' \<Rightarrow> Inr (?rows fs')))"
    unfolding standalone_main_def
    by (simp only: Let_def mk sum.case standalone_row_manifest_row)
  show ?thesis
  proof (cases "case node_at fs ?top of Some (Dir _) \<Rightarrow> True | _ \<Rightarrow> False")
    case False
    then have "?dirs = [] \<or> depth \<le> 0"
    proof (cases "node_at fs ?top")
      case None
      then show ?thesis by simp
    next
      case (Some node)
      then have "node = File" using False by (cases node) simp_all
      then show ?thesis using Some by (cases "nat depth") auto
    qed
    then show ?thesis
      unfolding sm wm using False by auto
  next
    case True
    show ?thesis
      unfolding sm wm using True
      by (cases "open_w ?out fs") (simp_all split: if_splits)
  qed
qed

theorem standalone_main_matches_on_resolved_paths_witness:
  "write_read_manifest (realpath_from run_dir) data_fs species_dir_resolved
     (species_dir_resolved @ [''Escherichia_coli_read_manifest.tsv'']) 1 =
     Inr (Some (species_manifest ''/data/dl/Escherichia_coli'')) \<and>
   standalone_main (realpath_from run_dir) data_fs species_dir_absolute
     (species_dir_absolute @ [''Escherichia_coli_read_manifest.tsv'']) 1 =
     Inr (species_manifest ''/data/dl/Escherichia_coli'')"
proof -
  let ?rp = "realpath_from run_dir"
  let ?out = "species_dir_absolute @ [''Escherichia_coli_read_manifest.tsv'']"
  have r1: "resolve ?rp species_dir_absolute = species_dir_resolved"
    by code_simp
  have r2: "resolve ?rp ?out = species_dir_resolved @ [''Escherichia_coli_read_manifest.tsv'']"
    by code_simp
  have i1: "?rp (resolve ?rp species_dir_absolute) = ?rp species_dir_absolute"
    by code_simp
  have i2: "?rp (resolve ?rp ?out) = ?rp ?out"
    by code_simp
  have "node_at data_fs (butlast (?rp ?out)) =
      Some (Dir [(''SAMC1'', Dir [(''b.fastq.gz'', File), (''a_2.fastq.gz'', File), (''a_1.fastq.gz'', File)]),
                 (''Escherichia_coli_RunInfo.csv'', File)])"
    by code_simp
  then have d: "\<exists>entries. node_at data_fs (butlast (?rp ?out)) = Some (Dir entries)"
    by (rule exI)
  have w: "write_read_manifest ?rp data_fs species_dir_resolved
     (species_dir_resolved @ [''Escherichia_coli_read_manifest.tsv'']) 1 =
     Inr (Some (species_manifest ''/data/dl/Escherichia_coli''))"
    by code_simp
  have s: "standalone_main ?rp data_fs species_dir_absolute ?out 1 =
     Inr (species_manifest ''/data/dl/Escherichia_coli'')"
    using standalone_main_matches_on_resolved_paths
      [OF i1 i2 d, of 1 "species_manifest ''/data/dl/Escherichia_coli''"] w
    unfolding r1 r2 by (simp only: simp_thms)
  show ?thesis
    by (intro conjI) (rule w, rule s)
qed

theorem manifest_writers_differ_counterexample:
  "write_read_manifest (realpath_from run_dir) data_fs species_dir_absolute
     (species_dir_absolute @ [''Escherichia_coli_read_manifest.tsv'']) 1 =
     Inr (Some (species_manifest ''/data/run/../dl/Escherichia_coli'')) \<and>
   standalone_main (realpath_from run_dir) data_fs species_dir_absolute
     (species_dir_absolute @ [''Escherichia_coli_read_manifest.tsv'']) 1 =
     Inr (species_manifest ''/data/dl/Escherichia_coli'') \<and>
   species_manifest ''/data/run/../dl/Escherichia_coli'' \<noteq> species_manifest ''/data/dl/Escherichia_coli'' \<and>
   write_read_manifest (realpath_from run_dir) data_fs species_dir_resolved
     (species_dir_resolved @ [''manifests'', ''reads.tsv'']) 1 =
     Inl (FileNotFoundError ''No such file or directory'') \<and>
   standalone_main (realpath_from run_dir) data_fs species_dir_resolved
     (species_dir_resolved @ [''manifests'', ''reads.tsv'']) 1 =
     Inr (species_manifest ''/data/dl/Escherichia_coli'' @ manifests_row ''/data/dl/Escherichia_coli'')"
proof -
  have a: "write_read_manifest (realpath_from run_dir) data_fs species_dir_absolute
     (species_dir_absolute @ [''Escherichia_coli_read_manifest.tsv'']) 1 =
     Inr (Some (species_manifest ''/data/run/../dl/Escherichia_coli''))"
    by code_simp
  have b: "standalone_main (realpath_from run_dir) data_fs species_dir_absolute
     (species_dir_absolute @ [''Escherichia_coli_read_manifest.tsv'']) 1 =
     Inr (species_manifest ''/data/dl/Escherichia_coli'')"
    by code_simp
  have c: "species_manifest ''/data/run/../dl/Escherichia_coli'' \<noteq> species_manifest ''/data/dl/Escherichia_coli''"
    by code_simp
  have d: "write_read_manifest (realpath_from run_dir) data_fs species_dir_resolved
     (species_dir_resolved @ [''manifests'', ''reads.tsv'']) 1 =
     Inl (FileNotFoundError ''No such file or directory'')"
    by code_simp
  have e: "standalone_main (realpath_from run_dir) data_fs species_dir_resolved
     (species_dir_resolved @ [''manifests'', ''reads.tsv'']) 1 =
     Inr (species_manifest ''/data/dl/Escherichia_coli'' @ manifests_row ''/data/dl/Escherichia_coli'')"
    by code_simp
  show ?thesis
    by (intro conjI) (rule a, rule b, rule c, rule d, rule e)
qed

section \<open>Properties of the downloader\<close>

lemma pool_starmap_all_exist:
  "\<forall>(u, p) \<in> set tasks. os_path_exists (disk w) p \<Longrightarrow> pool_starmap env tasks w = Inr w"
  by (induction tasks) (auto simp: wget_download_def)

lemma build_tasks_transport_calls:
  "build_tasks env species_dir rows tasks w = Inr (tasks', w1) \<Longrightarrow>
     transport_calls w1 = transport_calls w"
proof (induction env species_dir rows tasks w rule: build_tasks.induct)
  case (1 env species_dir tasks w)
  then show ?case by simp
next
  case (2 env species_dir row rows tasks w)
  let ?biosample = "py_strip (biosample_cell row)"
  let ?paths = "py_strip (download_path_cell row)"
  let ?urls = "filter (\<lambda>u. prefix ''ftp://'' u \<or> prefix ''http://'' u) (py_split (CHR ''|'') ?paths)"
  show ?case
  proof (cases "?biosample = [] \<or> ?paths = []")
    case True
    then show ?thesis using 2 by (simp add: Let_def)
  next
    case False
    note nonempty = this
    show ?thesis
    proof (cases "?urls = []")
      case True
      then show ?thesis using 2 nonempty by (simp add: Let_def)
    next
      case False
      show ?thesis
      proof (cases "path_mkdir env (path_str (joinpath species_dir ?biosample)) (disk w)")
        case (Inl e)
        then show ?thesis using "2.prems" nonempty False by (simp add: Let_def)
      next
        case (Inr fs1)
        have "transport_calls w1 = transport_calls (w\<lparr>disk := fs1\<rparr>)"
          using "2.IH"(3) [OF refl refl nonempty refl False refl Inr] "2.prems" nonempty False Inr
          by (simp add: Let_def)
        then show ?thesis by simp
      qed
    qed
  qed
qed

lemma wget_download_one_call:
  "\<not> os_path_exists (disk w) outpath \<Longrightarrow> wget_download env url outpath w = Inr w' \<Longrightarrow>
     transport_calls w' = transport_calls w @ [wget_cmd url outpath]"
  by (auto simp: wget_download_def Let_def split: sum.splits)

text \<open>
  C3, as amended. A download task returns without invoking the transport, and leaves
  the world as it is, exactly when its destination path already exists, whatever stands
  there (a file of any size, empty or not, or a directory); when the destination does
  not exist and the task returns, exactly one transport call has been issued.
  Consequently a run of the downloader over a table all of whose destinations exist
  issues no transport call.
\<close>

theorem wget_download_skips_iff_exists:
  "((wget_download env url outpath w = Inr w) = os_path_exists (disk w) outpath) \<and>
   (\<forall>w'. \<not> os_path_exists (disk w) outpath \<and> wget_download env url outpath w = Inr w' \<longrightarrow>
      transport_calls w' = transport_calls w @ [wget_cmd url outpath]) \<and>
   ((\<forall>(u, p) \<in> set tasks. os_path_exists (disk w) p) \<longrightarrow> pool_starmap env tasks w = Inr w) \<and>
   (\<forall>tasks' w1.
      build_tasks env species_dir rows [] w = Inr (tasks', w1) \<and>
      (\<forall>(u, p) \<in> set tasks'. os_path_exists (disk w1) p) \<longrightarrow>
        download_from_runinfo env rows species_dir w = Inr w1 \<and>
        transport_calls w1 = transport_calls w)"
proof (intro conjI allI impI)
  show "(wget_download env url outpath w = Inr w) = os_path_exists (disk w) outpath"
  proof (cases "os_path_exists (disk w) outpath")
    case True
    then show ?thesis by (simp add: wget_download_def)
  next
    case False
    have "wget_download env url outpath w \<noteq> Inr w"
    proof
      assume "wget_download env url outpath w = Inr w"
      then have "transport_calls w = transport_calls w @ [wget_cmd url outpath]"
        using False by (rule wget_download_one_call [rotated])
      then show False by simp
    qed
    then show ?thesis using False by simp
  qed
next
  fix w'
  assume "\<not> os_path_exists (disk w) outpath \<and> wget_download env url outpath w = Inr w'"
  then show "transport_calls w' = transport_calls w @ [wget_cmd url outpath]"
    using wget_download_one_call by blast
next
  assume "\<forall>(u, p) \<in> set tasks. os_path_exists (disk w) p"
  then show "pool_starmap env tasks w = Inr w"
    by (rule pool_starmap_all_exist)
next
  fix tasks' w1
  assume h: "build_tasks env species_dir rows [] w = Inr (tasks', w1) \<and>
      (\<forall>(u, p) \<in> set tasks'. os_path_exists (disk w1) p)"
  then have "pool_starmap env tasks' w1 = Inr w1"
    using pool_starmap_all_exist [of tasks' w1 env] by blast
  then show "download_from_runinfo env rows species_dir w = Inr w1"
    using h by (simp add: download_from_runinfo_def)
  show "transport_calls w1 = transport_calls w"
    using h build_tasks_transport_calls by blast
qed

theorem wget_download_skips_iff_exists_witness:
  "os_path_exists (disk (world_with_file ''/dl/Ecoli/SAMC1/a_1.fastq.gz'' 7)) ''/dl/Ecoli/SAMC1/a_1.fastq.gz'' \<and>
   wget_download creating_env ''http://x/a_1.fastq.gz'' ''/dl/Ecoli/SAMC1/a_1.fastq.gz''
     (world_with_file ''/dl/Ecoli/SAMC1/a_1.fastq.gz'' 7) =
     Inr (world_with_file ''/dl/Ecoli/SAMC1/a_1.fastq.gz'' 7) \<and>
   pool_starmap creating_env [(''http://x/a_1.fastq.gz'', ''/dl/Ecoli/SAMC1/a_1.fastq.gz'')]
     (world_with_file ''/dl/Ecoli/SAMC1/a_1.fastq.gz'' 7) =
     Inr (world_with_file ''/dl/Ecoli/SAMC1/a_1.fastq.gz'' 7) \<and>
   \<not> os_path_exists (disk (world_with_file ''/dl/Ecoli/SAMC1/a_1.fastq.gz'' 7)) ''/dl/Ecoli/SAMC1/a_2.fastq.gz'' \<and>
   wget_download creating_env ''http://x/a_2.fastq.gz'' ''/dl/Ecoli/SAMC1/a_2.fastq.gz''
     (world_with_file ''/dl/Ecoli/SAMC1/a_1.fastq.gz'' 7) \<noteq>
     Inr (world_with_file ''/dl/Ecoli/SAMC1/a_1.fastq.gz'' 7)"
proof -
  let ?w = "world_with_file ''/dl/Ecoli/SAMC1/a_1.fastq.gz'' 7"
  have e1: "os_path_exists (disk ?w) ''/dl/Ecoli/SAMC1/a_1.fastq.gz''"
    by (simp add: world_with_file_def os_path_exists_def)
  have e2: "\<not> os_path_exists (disk ?w) ''/dl/Ecoli/SAMC1/a_2.fastq.gz''"
    by (simp add: world_with_file_def os_path_exists_def)
  have all: "\<forall>(u, p) \<in> set [(''http://x/a_1.fastq.gz'', ''/dl/Ecoli/SAMC1/a_1.fastq.gz'')].
      os_path_exists (disk ?w) p"
    using e1 by simp
  note t1 = wget_download_skips_iff_exists [of creating_env "''http://x/a_1.fastq.gz''"
      "''/dl/Ecoli/SAMC1/a_1.fastq.gz''" ?w
      "[(''http://x/a_1.fastq.gz'', ''/dl/Ecoli/SAMC1/a_1.fastq.gz'')]" "[]" "[]"]
  note t2 = wget_download_skips_iff_exists [of creating_env "''http://x/a_2.fastq.gz''"
      "''/dl/Ecoli/SAMC1/a_2.fastq.gz''" ?w "[]" "[]" "[]"]
  have a: "wget_download creating_env ''http://x/a_1.fastq.gz'' ''/dl/Ecoli/SAMC1/a_1.fastq.gz'' ?w = Inr ?w"
    using t1 e1 by blast
  have b: "pool_starmap creating_env [(''http://x/a_1.fastq.gz'', ''/dl/Ecoli/SAMC1/a_1.fastq.gz'')] ?w = Inr ?w"
    using t1 all by blast
  have c: "wget_download creating_env ''http://x/a_2.fastq.gz'' ''/dl/Ecoli/SAMC1/a_2.fastq.gz'' ?w \<noteq> Inr ?w"
    using t2 e2 by blast
  show ?thesis
    by (intro conjI) (rule e1, rule a, rule b, rule e2, rule c)
qed

theorem wget_download_empty_file_counterexample:
  "disk (world_with_file ''/dl/Ecoli/SAMC1/a_1.fastq.gz'' 0) ''/dl/Ecoli/SAMC1/a_1.fastq.gz'' =
     Some (RegularFile 0) \<and>
   \<not> is_nonempty_file (disk (world_with_file ''/dl/Ecoli/SAMC1/a_1.fastq.gz'' 0)) ''/dl/Ecoli/SAMC1/a_1.fastq.gz'' \<and>
   wget_download creating_env ''http://x/a_1.fastq.gz'' ''/dl/Ecoli/SAMC1/a_1.fastq.gz''
     (world_with_file ''/dl/Ecoli/SAMC1/a_1.fastq.gz'' 0) =
     Inr (world_with_file ''/dl/Ecoli/SAMC1/a_1.fastq.gz'' 0) \<and>
   transport_calls (world_with_file ''/dl/Ecoli/SAMC1/a_1.fastq.gz'' 0) = []"
  by (simp add: world_with_file_def is_nonempty_file_def wget_download_def os_path_exists_def)
section \<open>Properties of the metadata collection\<close>

text \<open>
  C8. On a page whose supplementary rows include one named \<^verbatim>\<open>BioSample\<close>, the
  record returned for the queried sample \<^verbatim>\<open>SAMC000001\<close> maps \<^verbatim>\<open>BioSample\<close> to the
  text of that row: the guard under the comment "Avoid overwriting BioSample" tests the
  key \<^verbatim>\<open>Accession\<close> only.
\<close>

theorem scrape_overwrites_biosample:
  "scrape_biosample_metadata overwriting_driver ''SAMC000001'' =
     Inr (Some [(''BioSample'', ''SAMC999999''), (''Sample_name'', ''E. coli K12'')])"
  by code_simp

lemma task_BioSample:
  "task driver bs = Some r \<Longrightarrow> r \<noteq> [] \<Longrightarrow> ''BioSample'' \<in> fst ` set r"
  by (auto simp: task_def Let_def split: sum.splits option.splits if_splits)

lemma collect_records_BioSample:
  "r \<in> set (collect_records driver completed) \<Longrightarrow> ''BioSample'' \<in> fst ` set r"
  unfolding collect_records_def using task_BioSample by fastforce

lemma zip_map_filter:
  "map snd (filter (\<lambda>(k, v). P k) (zip ks (map f ks))) = map f (filter P ks)"
  by (induction ks) auto

lemma metadata_frame_eq:
  "metadata_frame records =
     (filter (\<lambda>k. k \<noteq> ''Attributes'') (all_keys_of records),
      map (\<lambda>r. map (\<lambda>k. dict_get r k []) (filter (\<lambda>k. k \<noteq> ''Attributes'') (all_keys_of records))) records)"
proof (cases "''Attributes'' \<in> set (all_keys_of records)")
  case True
  then show ?thesis
    by (simp add: metadata_frame_def data_frame_def drop_column_def Let_def zip_map_filter)
next
  case False
  then have "filter (\<lambda>k. k \<noteq> ''Attributes'') (all_keys_of records) = all_keys_of records"
    by (auto simp: filter_id_conv)
  then show ?thesis
    using False by (simp add: metadata_frame_def data_frame_def Let_def)
qed

lemma all_keys_of_set:
  "set (all_keys_of records) = insert ''BioSample'' (\<Union>r\<in>set records. fst ` set r)"
  by (auto simp: all_keys_of_def)

text \<open>
  C4. When at least one record has been collected, the columns of the table are
  \<^verbatim>\<open>BioSample\<close> followed by the other keys in ascending order, without repetition;
  as a set they are the union of the keys of all records less \<^verbatim>\<open>Attributes\<close>; the
  rows are those of the records, in the order of the records, and each row has one
  cell for every column, holding the record's value for the key or the empty string
  when the record lacks it; and this table is what is written.
\<close>

theorem metadata_table_columns:
  "collect_records driver completed = records \<and> records \<noteq> [] \<longrightarrow>
     (\<exists>rest. fst (metadata_frame records) = ''BioSample'' # rest \<and>
        sorted rest \<and> distinct (''BioSample'' # rest)) \<and>
     set (fst (metadata_frame records)) = (\<Union>r\<in>set records. fst ` set r) - {''Attributes''} \<and>
     snd (metadata_frame records) =
       map (\<lambda>r. map (\<lambda>k. dict_get r k []) (fst (metadata_frame records))) records \<and>
     (\<forall>r \<in> set records. \<forall>k. k \<notin> fst ` set r \<longrightarrow> dict_get r k [] = []) \<and>
     write_biosample_metadata_parallel driver completed = Some (to_csv (metadata_frame records))"
proof (intro impI)
  assume h: "collect_records driver completed = records \<and> records \<noteq> []"
  let ?others = "sort (remdups (filter (\<lambda>k. k \<noteq> ''BioSample'') (concat (map (map fst) records))))"
  let ?rest = "filter (\<lambda>k. k \<noteq> ''Attributes'') ?others"
  have cols: "fst (metadata_frame records) = ''BioSample'' # ?rest"
    by (simp add: metadata_frame_eq all_keys_of_def)
  have "sorted ?others"
    by (rule sorted_sort)
  then have s: "sorted ?rest"
    using sorted_filter [of "\<lambda>x. x" ?others "\<lambda>k. k \<noteq> ''Attributes''"] by simp
  have "distinct ?others"
    by (simp only: distinct_sort distinct_remdups)
  then have d: "distinct ?rest"
    by (rule distinct_filter)
  have "''BioSample'' \<notin> set ?others"
    by (simp only: set_sort set_remdups set_filter) blast
  then have n: "''BioSample'' \<notin> set ?rest"
    by (simp only: set_filter) blast
  have c1: "\<exists>rest. fst (metadata_frame records) = ''BioSample'' # rest \<and>
        sorted rest \<and> distinct (''BioSample'' # rest)"
    using cols s d n by (intro exI [of _ ?rest]) (simp only: distinct.simps simp_thms)
  obtain r0 where r0: "r0 \<in> set records"
    using h by (cases records) auto
  then have "r0 \<in> set (collect_records driver completed)"
    using h by simp
  then have "''BioSample'' \<in> fst ` set r0"
    by (rule collect_records_BioSample)
  with r0 have "''BioSample'' \<in> (\<Union>r\<in>set records. fst ` set r)"
    by (rule UN_I)
  then have u: "insert ''BioSample'' (\<Union>r\<in>set records. fst ` set r) = (\<Union>r\<in>set records. fst ` set r)"
    by (rule insert_absorb)
  have "set (fst (metadata_frame records)) =
      {k \<in> insert ''BioSample'' (\<Union>r\<in>set records. fst ` set r). k \<noteq> ''Attributes''}"
    unfolding metadata_frame_eq fst_conv set_filter all_keys_of_set ..
  then have c2: "set (fst (metadata_frame records)) = (\<Union>r\<in>set records. fst ` set r) - {''Attributes''}"
    unfolding u by blast
  have c3: "snd (metadata_frame records) =
       map (\<lambda>r. map (\<lambda>k. dict_get r k []) (fst (metadata_frame records))) records"
    unfolding metadata_frame_eq fst_conv snd_conv ..
  have c4: "\<forall>r \<in> set records. \<forall>k. k \<notin> fst ` set r \<longrightarrow> dict_get r k [] = []"
  proof (intro ballI allI impI)
    fix r :: pydict and k
    assume "k \<notin> fst ` set r"
    then have "map_of r k = None"
      by (simp add: map_of_eq_None_iff)
    then show "dict_get r k [] = []"
      by (simp add: dict_get_def)
  qed
  have "records \<noteq> []" using h by blast
  then have c5: "write_biosample_metadata_parallel driver completed = Some (to_csv (metadata_frame records))"
    using h unfolding write_biosample_metadata_parallel_def Let_def by (simp only: if_False)
  show "(\<exists>rest. fst (metadata_frame records) = ''BioSample'' # rest \<and>
        sorted rest \<and> distinct (''BioSample'' # rest)) \<and>
     set (fst (metadata_frame records)) = (\<Union>r\<in>set records. fst ` set r) - {''Attributes''} \<and>
     snd (metadata_frame records) =
       map (\<lambda>r. map (\<lambda>k. dict_get r k []) (fst (metadata_frame records))) records \<and>
     (\<forall>r \<in> set records. \<forall>k. k \<notin> fst ` set r \<longrightarrow> dict_get r k [] = []) \<and>
     write_biosample_metadata_parallel driver completed = Some (to_csv (metadata_frame records))"
    by (rule conjI [OF c1 conjI [OF c2 conjI [OF c3 conjI [OF c4 c5]]]])
qed
theorem metadata_table_columns_witness:
  "collect_records mixed_driver [''SAMC2'', ''SAMC1''] \<noteq> [] \<and>
   metadata_frame (collect_records mixed_driver [''SAMC2'', ''SAMC1'']) =
     ([''BioSample'', ''Host'', ''Strain''],
      [[''SAMC2'', [], ''K12''], [''SAMC1'', ''Homo sapiens'', []]]) \<and>
   write_biosample_metadata_parallel mixed_driver [''SAMC2'', ''SAMC1''] =
     Some (to_csv (metadata_frame (collect_records mixed_driver [''SAMC2'', ''SAMC1''])))"
proof -
  let ?records = "collect_records mixed_driver [''SAMC2'', ''SAMC1'']"
  have ne: "?records \<noteq> []"
    by code_simp
  have fr: "metadata_frame ?records =
     ([''BioSample'', ''Host'', ''Strain''],
      [[''SAMC2'', [], ''K12''], [''SAMC1'', ''Homo sapiens'', []]])"
    by code_simp
  have wr: "write_biosample_metadata_parallel mixed_driver [''SAMC2'', ''SAMC1''] =
     Some (to_csv (metadata_frame ?records))"
    using metadata_table_columns [of mixed_driver "[''SAMC2'', ''SAMC1'']" ?records] ne
    by blast
  show ?thesis
    by (rule conjI [OF ne conjI [OF fr wr]])
qed








end
